theory Spec2Isabelle
  imports Main "HOL-Library.Sublist"
begin

section \<open>Text primitives of the scripts\<close>

text \<open>
  File contents are Python \<open>str\<close> values.  They are modelled as \<open>string\<close>, one \<open>char\<close> per
  code point, which covers the code points 0 to 255.  The two character classes the
  scripts rely on are written out for that range as Python defines them:
  \<^item> \<open>is_space\<close> is the class \<open>\s\<close> of \<open>re\<close> on \<open>str\<close> patterns and the set removed by
    \<open>str.strip()\<close>: code points 9 to 13, 28 to 32, 133 and 160;
  \<^item> \<open>is_word\<close> is the class \<open>\w\<close>: the underscore and every alphanumeric code point.
\<close>

definition is_space :: "char \<Rightarrow> bool" where
  "is_space c =
     (let n = (of_char c :: nat)
      in (9 \<le> n \<and> n \<le> 13) \<or> (28 \<le> n \<and> n \<le> 32) \<or> n = 133 \<or> n = 160)"

definition is_word :: "char \<Rightarrow> bool" where
  "is_word c =
     (let n = (of_char c :: nat)
      in (48 \<le> n \<and> n \<le> 57) \<or> (65 \<le> n \<and> n \<le> 90) \<or> n = 95 \<or> (97 \<le> n \<and> n \<le> 122)
         \<or> n = 170 \<or> n = 178 \<or> n = 179 \<or> n = 181 \<or> n = 185 \<or> n = 186
         \<or> (188 \<le> n \<and> n \<le> 190) \<or> (192 \<le> n \<and> n \<le> 214) \<or> (216 \<le> n \<and> n \<le> 246)
         \<or> 248 \<le> n)"

text \<open>\<open>strip_prefix p s\<close> matches the literal \<open>p\<close> at the start of \<open>s\<close> and returns the rest.\<close>

fun strip_prefix :: "string \<Rightarrow> string \<Rightarrow> string option" where
  "strip_prefix [] s = Some s"
| "strip_prefix (p # ps) [] = None"
| "strip_prefix (p # ps) (c # cs) = (if p = c then strip_prefix ps cs else None)"

text \<open>\<open>str.strip()\<close>: whitespace removed at both ends.\<close>

definition lstrip :: "string \<Rightarrow> string" where
  "lstrip s = dropWhile is_space s"

definition rstrip :: "string \<Rightarrow> string" where
  "rstrip s = rev (dropWhile is_space (rev s))"

definition strip :: "string \<Rightarrow> string" where
  "strip s = rstrip (lstrip s)"

text \<open>\<open>s.split(sep)\<close> for a one-character separator: a flat split at every occurrence.\<close>

fun split_on :: "char \<Rightarrow> string \<Rightarrow> string list" where
  "split_on sep [] = [[]]"
| "split_on sep (c # cs) =
     (if c = sep then [] # split_on sep cs
      else (let r = split_on sep cs in (c # hd r) # tl r))"

text \<open>\<open>sep.join(xs)\<close>.\<close>

fun join :: "string \<Rightarrow> string list \<Rightarrow> string" where
  "join sep [] = []"
| "join sep [x] = x"
| "join sep (x # y # ys) = x @ sep @ join sep (y # ys)"

text \<open>\<open>sub in s\<close> on strings.\<close>

fun contains :: "string \<Rightarrow> string \<Rightarrow> bool" where
  "contains sub [] = (sub = [])"
| "contains sub (c # cs) = (prefix sub (c # cs) \<or> contains sub cs)"

section \<open>Regular-expression substitution\<close>

text \<open>
  A pattern is modelled by its matcher: given the text from the current position on, it
  returns the number of characters of the match there and the replacement text, or \<open>None\<close>
  when the pattern does not match at that position.  \<open>re_sub\<close> is \<open>re.sub\<close>: it scans from
  the left, replaces the leftmost match, resumes behind it, and copies every character at
  which nothing matches.  No pattern of the scripts matches the empty string, so a match
  always consumes at least the character it starts at.
\<close>

type_synonym matcher = "string \<Rightarrow> (nat \<times> string) option"

fun re_sub :: "matcher \<Rightarrow> string \<Rightarrow> string" where
  "re_sub m [] = []"
| "re_sub m (c # cs) =
     (case m (c # cs) of
        None \<Rightarrow> c # re_sub m cs
      | Some (n, r) \<Rightarrow> r @ re_sub m (drop (n - 1) cs))"

section \<open>fix\_memory\_imports.py: the rewriting rules\<close>

subsection \<open>transform\_external\_imports\<close>

text \<open>
  The pattern \<open>use\s+paraphym_memory::\<close>.  \<open>\s+\<close> is greedy, and the literal behind it starts
  with a character that is no whitespace, so the only candidate is the whole whitespace run.
\<close>

definition external_pattern :: matcher where
  "external_pattern s =
     (case strip_prefix ''use'' s of
        None \<Rightarrow> None
      | Some r1 \<Rightarrow>
          if takeWhile is_space r1 = [] then None
          else (case strip_prefix ''paraphym_memory::'' (dropWhile is_space r1) of
                  None \<Rightarrow> None
                | Some r2 \<Rightarrow> Some (length s - length r2, ''use paraphym_candle::memory::'')))"

definition transform_external_imports :: "string \<Rightarrow> string" where
  "transform_external_imports content = re_sub external_pattern content"

subsection \<open>transform\_internal\_memory\_imports\<close>

text \<open>
  \<open>path_tail s\<close> is the text matched by \<open>(?:::\w+)*\<close> at the start of \<open>s\<close>; \<open>path_group s\<close> is
  the text matched by \<open>\w+(?:::\w+)*\<close>, empty when there is no match.  Both are the last
  part of pattern 1, so the greedy choice is the match.
\<close>

function path_tail :: "string \<Rightarrow> string" where
  "path_tail s =
     (case strip_prefix ''::'' s of
        None \<Rightarrow> []
      | Some r \<Rightarrow>
          if takeWhile is_word r = [] then []
          else ''::'' @ takeWhile is_word r @ path_tail (dropWhile is_word r))"
  by pat_completeness auto
termination
proof (relation "measure length")
  show "wf (measure length)" by simp
next
  fix s r :: string
  assume a: "strip_prefix ''::'' s = Some r"
  have "length r < length s"
    using a by (cases s; cases "tl s") (auto split: if_splits)
  moreover have "length (dropWhile is_word r) \<le> length r"
    by (rule length_dropWhile_le)
  ultimately show "(dropWhile is_word r, s) \<in> measure length" by simp
qed

declare path_tail.simps [simp del]

definition path_group :: "string \<Rightarrow> string" where
  "path_group s =
     (if takeWhile is_word s = [] then []
      else takeWhile is_word s @ path_tail (dropWhile is_word s))"

text \<open>
  Pattern 1, \<open>use\s+crate::(?!memory::)(\w+(?:::\w+)*)\<close>, with \<open>replace1\<close>.
\<close>

definition pattern1 :: matcher where
  "pattern1 s =
     (case strip_prefix ''use'' s of
        None \<Rightarrow> None
      | Some r1 \<Rightarrow>
          if takeWhile is_space r1 = [] then None
          else (case strip_prefix ''crate::'' (dropWhile is_space r1) of
                  None \<Rightarrow> None
                | Some r2 \<Rightarrow>
                    if prefix ''memory::'' r2 then None
                    else if path_group r2 = [] then None
                    else Some (length s - length r2 + length (path_group r2),
                               ''use crate::memory::'' @ path_group r2)))"

text \<open>
  The loop of \<open>replace2\<close> over \<open>item_list\<close>, with \<open>new_items\<close> as the accumulator.  The two
  branches under the comment about root-level items append the same text, as in the source.
\<close>

fun replace2_loop :: "string list \<Rightarrow> string list \<Rightarrow> string list" where
  "replace2_loop [] new_items = new_items"
| "replace2_loop (item0 # rest) new_items =
     (let item = strip item0 in
      if item = [] then replace2_loop rest new_items
      else if \<not> prefix ''memory::'' item \<and> item \<notin> set [''Error'', ''Result''] then
        (if \<not> contains ''::'' item \<or> prefix ''memory'' item
         then replace2_loop rest (new_items @ [''memory::'' @ item])
         else replace2_loop rest (new_items @ [''memory::'' @ item]))
      else replace2_loop rest (new_items @ [item]))"

definition item_list_of :: "string \<Rightarrow> string list" where
  "item_list_of items = map strip (split_on CHR '','' items)"

definition replace2 :: "string \<Rightarrow> string" where
  "replace2 items =
     ''use crate::{'' @ join '', '' (replace2_loop (item_list_of items) []) @ ''}''"

text \<open>
  Pattern 2, \<open>use\s+crate::\{([^}]+)\}\<close>.  The class \<open>[^}]\<close> also matches a newline; the run
  it takes is the longest one, since a shorter run would have to be followed by a brace
  that lies inside the run.
\<close>

definition pattern2 :: matcher where
  "pattern2 s =
     (case strip_prefix ''use'' s of
        None \<Rightarrow> None
      | Some r1 \<Rightarrow>
          if takeWhile is_space r1 = [] then None
          else (case strip_prefix ''crate::{'' (dropWhile is_space r1) of
                  None \<Rightarrow> None
                | Some r2 \<Rightarrow>
                    (let items = takeWhile (\<lambda>c. c \<noteq> CHR ''}'') r2;
                         r3 = dropWhile (\<lambda>c. c \<noteq> CHR ''}'') r2
                     in if items = [] \<or> r3 = [] then None
                        else Some (length s - length r3 + 1, replace2 items))))"

definition transform_internal_memory_imports :: "string \<Rightarrow> string" where
  "transform_internal_memory_imports content = re_sub pattern2 (re_sub pattern1 content)"


subsection \<open>is\_memory\_file\<close>

text \<open>
  A \<open>Path\<close> is the list of its parts.  \<open>relative_to\<close> raises \<open>ValueError\<close> when the path is
  not below the base; \<open>path_str\<close> is \<open>str\<close> of a relative POSIX path.
\<close>

type_synonym path = "string list"

datatype py_error =
  FileNotFoundError | IsADirectoryError | PermissionError | UnicodeDecodeError | ValueError

definition relative_to :: "path \<Rightarrow> path \<Rightarrow> py_error + path" where
  "relative_to p base =
     (if prefix base p then Inr (drop (length base) p) else Inl ValueError)"

definition path_str :: "path \<Rightarrow> string" where
  "path_str p = (if p = [] then ''.'' else join ''/'' p)"

definition is_memory_file :: "path \<Rightarrow> path \<Rightarrow> bool" where
  "is_memory_file file_path candle_src =
     (case relative_to file_path candle_src of
        Inr relative_path \<Rightarrow> prefix ''memory/'' (path_str relative_path)
      | Inl e \<Rightarrow> False)"

section \<open>The file system and the console\<close>

text \<open>
  A file carries what \<open>read_text\<close> yields for it (its text, or the error the read or the
  decoding raises) and whether it can be written.  The world also records every
  successful write, in order, and the warnings and errors printed; the progress messages
  of the scripts are not modelled.  A failed write leaves the world as it was.
\<close>

datatype node = Dir | File "py_error + string" bool

datatype message =
    Warning_not_found path
  | Already_declared
  | Added_declaration
  | Error_processing path py_error
  | Error_src_not_found path

record world =
  nodes :: "path \<Rightarrow> node option"
  writes :: "path list"
  printed :: "message list"

definition exists_path :: "world \<Rightarrow> path \<Rightarrow> bool" where
  "exists_path w p = (nodes w p \<noteq> None)"

definition read_text :: "world \<Rightarrow> path \<Rightarrow> py_error + string" where
  "read_text w p =
     (case nodes w p of
        None \<Rightarrow> Inl FileNotFoundError
      | Some Dir \<Rightarrow> Inl IsADirectoryError
      | Some (File r wr) \<Rightarrow> r)"

definition write_text :: "world \<Rightarrow> path \<Rightarrow> string \<Rightarrow> py_error + world" where
  "write_text w p s =
     (case nodes w p of
        None \<Rightarrow>
          if nodes w (butlast p) = Some Dir
          then Inr (w\<lparr>nodes := (nodes w)(p \<mapsto> File (Inr s) True), writes := writes w @ [p]\<rparr>)
          else Inl FileNotFoundError
      | Some Dir \<Rightarrow> Inl IsADirectoryError
      | Some (File r wr) \<Rightarrow>
          if wr
          then Inr (w\<lparr>nodes := (nodes w)(p \<mapsto> File (Inr s) wr), writes := writes w @ [p]\<rparr>)
          else Inl PermissionError)"

definition print_message :: "world \<Rightarrow> message \<Rightarrow> world" where
  "print_message w msg = w\<lparr>printed := printed w @ [msg]\<rparr>"

section \<open>fix\_memory\_imports.py: the files\<close>

subsection \<open>process\_rust\_file\<close>

definition process_rust_file :: "world \<Rightarrow> path \<Rightarrow> path \<Rightarrow> world \<times> bool" where
  "process_rust_file w file_path candle_src =
     (case read_text w file_path of
        Inl e \<Rightarrow> (print_message w (Error_processing file_path e), False)
      | Inr original_content \<Rightarrow>
          (let content = transform_external_imports original_content;
               content = (if is_memory_file file_path candle_src
                          then transform_internal_memory_imports content else content)
           in if content \<noteq> original_content then
                (case write_text w file_path content of
                   Inl e \<Rightarrow> (print_message w (Error_processing file_path e), False)
                 | Inr w' \<Rightarrow> (w', True))
              else (w, False)))"

subsection \<open>add\_memory\_module\_to\_lib\<close>

text \<open>
  The two anchored patterns, \<open>^\s*pub\s+mod\s+memory\s*;\<close> and \<open>^\s*pub\s+mod\s+\w+\s*;\<close>,
  as matchers that return the length of the match at a position where \<open>^\<close> holds.  Every
  repetition is followed by a character outside its class, so the greedy run is the only
  candidate.
\<close>

definition memory_decl_pattern :: "string \<Rightarrow> nat option" where
  "memory_decl_pattern s =
     (case strip_prefix ''pub'' (dropWhile is_space s) of
        None \<Rightarrow> None
      | Some r1 \<Rightarrow>
          if takeWhile is_space r1 = [] then None
          else (case strip_prefix ''mod'' (dropWhile is_space r1) of
                  None \<Rightarrow> None
                | Some r2 \<Rightarrow>
                    if takeWhile is_space r2 = [] then None
                    else (case strip_prefix ''memory'' (dropWhile is_space r2) of
                            None \<Rightarrow> None
                          | Some r3 \<Rightarrow>
                              (case strip_prefix '';'' (dropWhile is_space r3) of
                                 None \<Rightarrow> None
                               | Some r4 \<Rightarrow> Some (length s - length r4)))))"

definition pub_mod_pattern :: "string \<Rightarrow> nat option" where
  "pub_mod_pattern s =
     (case strip_prefix ''pub'' (dropWhile is_space s) of
        None \<Rightarrow> None
      | Some r1 \<Rightarrow>
          if takeWhile is_space r1 = [] then None
          else (case strip_prefix ''mod'' (dropWhile is_space r1) of
                  None \<Rightarrow> None
                | Some r2 \<Rightarrow>
                    if takeWhile is_space r2 = [] then None
                    else if takeWhile is_word (dropWhile is_space r2) = [] then None
                    else (case strip_prefix '';''
                                 (dropWhile is_space (dropWhile is_word (dropWhile is_space r2))) of
                            None \<Rightarrow> None
                          | Some r4 \<Rightarrow> Some (length s - length r4))))"

text \<open>
  \<open>re.search\<close> and \<open>re.finditer\<close> with \<open>re.MULTILINE\<close>: \<open>^\<close> holds at the start of the text
  and behind every newline, which the flag \<open>bol\<close> tracks.  \<open>finditer_ends\<close> lists the end
  offsets of the matches.
\<close>

fun re_search_multiline :: "(string \<Rightarrow> nat option) \<Rightarrow> bool \<Rightarrow> string \<Rightarrow> bool" where
  "re_search_multiline m bol [] = False"
| "re_search_multiline m bol (c # cs) =
     ((bol \<and> m (c # cs) \<noteq> None) \<or> re_search_multiline m (c = CHR 0x0A) cs)"

fun finditer_ends :: "(string \<Rightarrow> nat option) \<Rightarrow> bool \<Rightarrow> nat \<Rightarrow> string \<Rightarrow> nat list" where
  "finditer_ends m bol pos [] = []"
| "finditer_ends m bol pos (c # cs) =
     (case (if bol then m (c # cs) else None) of
        None \<Rightarrow> finditer_ends m (c = CHR 0x0A) (Suc pos) cs
      | Some n \<Rightarrow>
          (pos + n) # finditer_ends m ((c # cs) ! (n - 1) = CHR 0x0A) (pos + n) (drop (n - 1) cs))"

text \<open>The loop that looks for the first line that is neither blank nor a comment.\<close>

fun find_insert_line :: "nat \<Rightarrow> string list \<Rightarrow> nat" where
  "find_insert_line i [] = 0"
| "find_insert_line i (line # rest) =
     (if strip line \<noteq> [] \<and> \<not> prefix ''//'' (strip line) \<and> \<not> prefix ''#!'' (strip line)
      then i else find_insert_line (Suc i) rest)"

definition list_insert :: "'a list \<Rightarrow> nat \<Rightarrow> 'a \<Rightarrow> 'a list" where
  "list_insert xs i x = take i xs @ [x] @ drop i xs"

definition doc_line :: string where
  "doc_line = ''/// Memory system with cognitive features and vector storage''"

definition has_memory_decl :: "string \<Rightarrow> bool" where
  "has_memory_decl content = re_search_multiline memory_decl_pattern True content"

definition insert_memory_decl :: "string \<Rightarrow> string" where
  "insert_memory_decl content =
     (let matches = finditer_ends pub_mod_pattern True 0 content in
      if matches \<noteq> [] then
        (let insert_pos = last matches
         in take insert_pos content @ [CHR 0x0A] @ doc_line @ [CHR 0x0A] @ ''pub mod memory;''
            @ drop insert_pos content)
      else
        (let lines = split_on CHR 0x0A content;
             insert_line = find_insert_line 0 lines;
             lines = list_insert lines insert_line doc_line;
             lines = list_insert lines (insert_line + 1) ''pub mod memory;'';
             lines = list_insert lines (insert_line + 2) []
         in join [CHR 0x0A] lines))"

text \<open>
  The reads and the write of this function are not guarded: an error they raise leaves the
  function, which the result \<open>Inl\<close> stands for.
\<close>

definition add_memory_module_to_lib :: "world \<Rightarrow> path \<Rightarrow> py_error + (world \<times> bool)" where
  "add_memory_module_to_lib w lib_rs_path =
     (if \<not> exists_path w lib_rs_path
      then Inr (print_message w (Warning_not_found lib_rs_path), False)
      else (case read_text w lib_rs_path of
              Inl e \<Rightarrow> Inl e
            | Inr content \<Rightarrow>
                if has_memory_decl content
                then Inr (print_message w Already_declared, False)
                else (case write_text w lib_rs_path (insert_memory_decl content) of
                        Inl e \<Rightarrow> Inl e
                      | Inr w' \<Rightarrow> Inr (print_message w' Added_declaration, True))))"

subsection \<open>main\<close>

text \<open>
  \<open>main\<close> takes the source root and the list \<open>rust_files\<close> that \<open>rglob\<close> returns.  The run
  ends by the early return, by an exception that nothing catches, or with the two counters.
\<close>

datatype run_result =
    Returned_early world
  | Raised py_error world
  | Completed world nat nat

fun process_all :: "world \<Rightarrow> path \<Rightarrow> path list \<Rightarrow> nat \<Rightarrow> nat \<Rightarrow> run_result" where
  "process_all w candle_src [] processed_files changed_files =
     Completed w processed_files changed_files"
| "process_all w candle_src (rust_file # rest) processed_files changed_files =
     (case relative_to rust_file candle_src of
        Inl e \<Rightarrow> Raised e w
      | Inr relative_path \<Rightarrow>
          (case process_rust_file w rust_file candle_src of
             (w', changed) \<Rightarrow>
               process_all w' candle_src rest (processed_files + 1)
                 (if changed then changed_files + 1 else changed_files)))"

definition main :: "world \<Rightarrow> path \<Rightarrow> path list \<Rightarrow> run_result" where
  "main w candle_src rust_files =
     (let lib_rs = candle_src @ [''lib.rs''] in
      if \<not> exists_path w candle_src
      then Returned_early (print_message w (Error_src_not_found candle_src))
      else (case add_memory_module_to_lib w lib_rs of
              Inl e \<Rightarrow> Raised e w
            | Inr (w1, added) \<Rightarrow> process_all w1 candle_src rust_files 0 0))"

section \<open>fix\_compilation\_errors.py: fix 3\<close>

text \<open>
  The third fix replaces a literal in one file.  It reads the file when it exists, applies
  \<open>re.sub\<close> and writes the result, whatever it is.
\<close>

definition literal_pattern :: "string \<Rightarrow> string \<Rightarrow> matcher" where
  "literal_pattern p r s =
     (case strip_prefix p s of None \<Rightarrow> None | Some rest \<Rightarrow> Some (length p, r))"

definition fix3 :: "world \<Rightarrow> path \<Rightarrow> py_error + world" where
  "fix3 w qwen_file =
     (if exists_path w qwen_file then
        (case read_text w qwen_file of
           Inl e \<Rightarrow> Inl e
         | Inr content \<Rightarrow>
             write_text w qwen_file
               (re_sub (literal_pattern ''progresshub::types::ZeroOneOrMany::None''
                                        ''progresshub::types::ZeroOneOrMany::Zero'') content))
      else Inr w)"

section \<open>Texts with a nested use\<close>

text \<open>
  The condition under which the rule set is shown to be idempotent on a memory file.
  \<open>nested_use c\<close> holds when somewhere in \<open>c\<close> the word \<open>use\<close>, followed by whitespace and
  \<open>crate::\<close>, stands directly behind a word character or a colon, the characters a path is
  made of.  It is a condition on the text that is read, and it is computed from the text
  alone.
\<close>

fun nested_use :: "string \<Rightarrow> bool" where
  "nested_use [] = False"
| "nested_use (w0 # t) =
     (((is_word w0 \<or> w0 = CHR '':'')
       \<and> (case strip_prefix ''use'' t of
             None \<Rightarrow> False
           | Some r1 \<Rightarrow>
               takeWhile is_space r1 \<noteq> []
               \<and> strip_prefix ''crate::'' (dropWhile is_space r1) \<noteq> None))
      \<or> nested_use t)"

section \<open>Lemmas on the text primitives\<close>

lemma strip_prefix_Some: "strip_prefix p s = Some r \<longleftrightarrow> s = p @ r"
  by (induction p s rule: strip_prefix.induct) auto

lemma strip_prefix_append [simp]: "strip_prefix p (p @ r) = Some r"
  by (simp add: strip_prefix_Some)

lemma rstrip_prefix: "\<exists>t. s = rstrip s @ t \<and> (\<forall>c\<in>set t. is_space c)"
proof -
  have "rev s = takeWhile is_space (rev s) @ dropWhile is_space (rev s)" by simp
  then have "s = rev (dropWhile is_space (rev s)) @ rev (takeWhile is_space (rev s))"
    by (metis rev_append rev_rev_ident)
  moreover have "\<forall>c\<in>set (rev (takeWhile is_space (rev s))). is_space c"
    by (auto dest: set_takeWhileD)
  ultimately show ?thesis unfolding rstrip_def by blast
qed

lemma rstrip_last: "rstrip s \<noteq> [] \<Longrightarrow> \<not> is_space (last (rstrip s))"
  unfolding rstrip_def by (simp add: last_rev hd_dropWhile)

lemma lstrip_hd: "lstrip s \<noteq> [] \<Longrightarrow> \<not> is_space (hd (lstrip s))"
  unfolding lstrip_def by (simp add: hd_dropWhile)

lemma strip_ends:
  assumes "strip s \<noteq> []"
  shows "\<not> is_space (hd (strip s))" and "\<not> is_space (last (strip s))"
proof -
  obtain t where t: "lstrip s = rstrip (lstrip s) @ t" using rstrip_prefix by blast
  from assms have ne: "rstrip (lstrip s) \<noteq> []" by (simp add: strip_def)
  then have "lstrip s \<noteq> []" using t by auto
  then have "\<not> is_space (hd (lstrip s))" by (rule lstrip_hd)
  moreover have "hd (lstrip s) = hd (rstrip (lstrip s))" using t ne by (metis hd_append2)
  ultimately show "\<not> is_space (hd (strip s))" by (simp add: strip_def)
  show "\<not> is_space (last (strip s))" using rstrip_last [OF ne] by (simp add: strip_def)
qed

lemma strip_fixed:
  assumes "s = [] \<or> (\<not> is_space (hd s) \<and> \<not> is_space (last s))"
  shows "strip s = s"
proof (cases "s = []")
  case True
  then show ?thesis by (simp add: strip_def lstrip_def rstrip_def)
next
  case False
  with assms have h: "\<not> is_space (hd s)" and l: "\<not> is_space (last s)" by auto
  from False h have "lstrip s = s" by (cases s) (auto simp: lstrip_def)
  moreover from False l have "rstrip s = s"
    by (cases "rev s") (auto simp: rstrip_def last_rev [symmetric] simp del: last_rev dest: arg_cong [where f=rev])
  ultimately show ?thesis by (simp add: strip_def)
qed

lemma strip_strip [simp]: "strip (strip s) = strip s"
  using strip_ends [of s] by (intro strip_fixed) blast

lemma replace2_loop_acc: "replace2_loop xs acc = acc @ replace2_loop xs []"
proof (induction xs arbitrary: acc)
  case Nil
  show ?case by simp
next
  case (Cons x xs)
  have a: "replace2_loop xs (acc @ [y]) = acc @ y # replace2_loop xs []" for y
    using Cons.IH [of "acc @ [y]"] by simp
  have b: "replace2_loop xs [y] = y # replace2_loop xs []" for y
    using Cons.IH [of "[y]"] by simp
  show ?case using Cons.IH [of acc] by (simp add: Let_def a b)
qed

lemma replace2_loop_map:
  "replace2_loop xs [] =
     map (\<lambda>item. if prefix ''memory::'' item \<or> item = ''Error'' \<or> item = ''Result''
                  then item else ''memory::'' @ item)
       (filter (\<lambda>i. i \<noteq> []) (map strip xs))"
proof (induction xs)
  case Nil
  show ?case by simp
next
  case (Cons x xs)
  have b: "replace2_loop xs [y] = y # replace2_loop xs []" for y
    using replace2_loop_acc [of xs "[y]"] by simp
  show ?case by (simp add: Let_def b Cons.IH)
qed

lemma split_on_nonempty [simp]: "split_on sep s \<noteq> []"
  by (induction s) (auto simp: Let_def)

lemma split_on_append:
  "split_on sep (x @ sep # y) = split_on sep x @ split_on sep y"
  by (induction x) (auto simp: Let_def)

lemma join_Cons: "xs \<noteq> [] \<Longrightarrow> join sep (x # xs) = x @ sep @ join sep xs"
  by (cases xs) auto

lemma join_split_on: "join [sep] (split_on sep s) = s"
proof (induction s)
  case Nil
  show ?case by simp
next
  case (Cons c s)
  obtain p ps where ps: "split_on sep s = p # ps" by (cases "split_on sep s") auto
  show ?case
  proof (cases "c = sep")
    case True
    then show ?thesis using Cons by (simp add: join_Cons)
  next
    case False
    then show ?thesis using Cons ps by (cases ps) (auto simp: Let_def)
  qed
qed

lemma split_on_no_sep: "piece \<in> set (split_on sep s) \<Longrightarrow> sep \<notin> set piece"
proof (induction s arbitrary: piece)
  case Nil
  then show ?case by simp
next
  case (Cons c s)
  obtain p ps where ps: "split_on sep s = p # ps" by (cases "split_on sep s") auto
  show ?case using Cons ps by (auto simp: Let_def split: if_splits)
qed

lemma length_split_on: "length (split_on sep s) = Suc (count_list s sep)"
  by (induction s) (auto simp: Let_def)


lemma takeWhile_run:
  "\<forall>c\<in>set xs. P c \<Longrightarrow> \<not> P y \<Longrightarrow> takeWhile P (xs @ y # ys) = xs"
  by (induction xs) auto

lemma dropWhile_run:
  "\<forall>c\<in>set xs. P c \<Longrightarrow> \<not> P y \<Longrightarrow> dropWhile P (xs @ y # ys) = y # ys"
  by (induction xs) auto

lemma takeWhile_neq: "y \<notin> set xs \<Longrightarrow> takeWhile (\<lambda>c. c \<noteq> y) (xs @ y # ys) = xs"
  by (induction xs) auto

lemma dropWhile_neq: "y \<notin> set xs \<Longrightarrow> dropWhile (\<lambda>c. c \<noteq> y) (xs @ y # ys) = y # ys"
  by (induction xs) auto

lemma is_space_simps [simp]:
  "is_space CHR '' ''" "\<not> is_space CHR ''c''" "\<not> is_space CHR ''p''"
  by (simp_all add: is_space_def)

lemma pattern2_statement:
  assumes "items \<noteq> []" and "CHR ''}'' \<notin> set items"
    and "ws \<noteq> []" and "\<forall>c\<in>set ws. is_space c"
  shows "pattern2 (''use'' @ ws @ ''crate::{'' @ items @ ''}'' @ rest) =
           Some (length ws + length items + 12, replace2 items)"
proof -
  have t1: "takeWhile is_space (ws @ ''crate::{'' @ items @ ''}'' @ rest) = ws"
    using takeWhile_run [of ws is_space "CHR ''c''"] assms(4) by simp
  have d1: "dropWhile is_space (ws @ ''crate::{'' @ items @ ''}'' @ rest)
              = ''crate::{'' @ items @ ''}'' @ rest"
    using dropWhile_run [of ws is_space "CHR ''c''"] assms(4) by simp
  have t2: "takeWhile (\<lambda>c. c \<noteq> CHR ''}'') (items @ ''}'' @ rest) = items"
    using takeWhile_neq [of "CHR ''}''" items] assms(2) by simp
  have d2: "dropWhile (\<lambda>c. c \<noteq> CHR ''}'') (items @ ''}'' @ rest) = ''}'' @ rest"
    using dropWhile_neq [of "CHR ''}''" items] assms(2) by simp
  have "strip_prefix ''use'' (''use'' @ ws @ ''crate::{'' @ items @ ''}'' @ rest)
          = Some (ws @ ''crate::{'' @ items @ ''}'' @ rest)"
    by (rule strip_prefix_append)
  moreover have "strip_prefix ''crate::{'' (''crate::{'' @ items @ ''}'' @ rest)
          = Some (items @ ''}'' @ rest)"
    by (rule strip_prefix_append)
  ultimately show ?thesis
    unfolding pattern2_def using t1 d1 t2 d2 assms(1,3)
    by (simp add: Let_def)
qed

lemma items_classified:
  "list_all2 (\<lambda>old new. (new = old \<longleftrightarrow> prefix ''memory::'' old \<or> old = ''Error'' \<or> old = ''Result'')
                          \<and> (new \<noteq> old \<longrightarrow> new = ''memory::'' @ old))
     (filter (\<lambda>i. i \<noteq> []) (map strip xs)) (replace2_loop xs [])"
  unfolding replace2_loop_map list_all2_map2
  by (rule list_all2_refl) auto

lemma item_list_of_strip: "map strip (item_list_of items) = item_list_of items"
  by (simp add: item_list_of_def)

section \<open>The bracketed rewriter\<close>

text \<open>
  Claim C3.  A bracketed statement \<open>use crate::{...}\<close> is replaced by the statement built
  from its items: an item (trimmed, the empty ones skipped) stays as it is exactly when it
  begins with \<open>memory::\<close> or is \<open>Error\<close> or \<open>Result\<close>, and every other item gets the prefix
  \<open>memory::\<close>.  So \<open>use crate::{Error, manager::Store};\<close> becomes
  \<open>use crate::{Error, memory::manager::Store};\<close>.
\<close>

theorem bracketed_items_classified:
  assumes "items \<noteq> []" and "CHR ''}'' \<notin> set items"
    and "ws \<noteq> []" and "\<forall>c\<in>set ws. is_space c"
  shows "pattern2 (''use'' @ ws @ ''crate::{'' @ items @ ''}'' @ rest) =
           Some (length ws + length items + 12,
                 ''use crate::{'' @ join '', '' (replace2_loop (item_list_of items) []) @ ''}'')
         \<and> list_all2
             (\<lambda>old new. (new = old \<longleftrightarrow> prefix ''memory::'' old \<or> old = ''Error'' \<or> old = ''Result'')
                         \<and> (new \<noteq> old \<longrightarrow> new = ''memory::'' @ old))
             (filter (\<lambda>i. i \<noteq> []) (item_list_of items))
             (replace2_loop (item_list_of items) [])
         \<and> transform_internal_memory_imports ''use crate::{Error, manager::Store};''
             = ''use crate::{Error, memory::manager::Store};''"
proof (intro conjI)
  show "pattern2 (''use'' @ ws @ ''crate::{'' @ items @ ''}'' @ rest) =
           Some (length ws + length items + 12,
                 ''use crate::{'' @ join '', '' (replace2_loop (item_list_of items) []) @ ''}'')"
    using pattern2_statement [OF assms] by (simp add: replace2_def)
  show "list_all2
             (\<lambda>old new. (new = old \<longleftrightarrow> prefix ''memory::'' old \<or> old = ''Error'' \<or> old = ''Result'')
                         \<and> (new \<noteq> old \<longrightarrow> new = ''memory::'' @ old))
             (filter (\<lambda>i. i \<noteq> []) (item_list_of items))
             (replace2_loop (item_list_of items) [])"
    using items_classified [of "item_list_of items"] by (simp only: item_list_of_strip)
  show "transform_internal_memory_imports ''use crate::{Error, manager::Store};''
             = ''use crate::{Error, memory::manager::Store};''"
    by code_simp
qed

theorem bracketed_items_classified_witness:
  "''Error, manager::Store'' \<noteq> [] \<and> CHR ''}'' \<notin> set ''Error, manager::Store''
   \<and> is_space CHR '' ''
   \<and> pattern2 ''use crate::{Error, manager::Store};''
        = Some (34, ''use crate::{Error, memory::manager::Store}'')
   \<and> replace2_loop (item_list_of ''Error, manager::Store'') []
        = [''Error'', ''memory::manager::Store'']"
proof -
  have h1: "''Error, manager::Store'' \<noteq> []" by simp
  have h2: "CHR ''}'' \<notin> set ''Error, manager::Store''" by simp
  have h3: "'' '' \<noteq> []" by simp
  have h4: "\<forall>c\<in>set '' ''. is_space c" by simp
  have e: "replace2_loop (item_list_of ''Error, manager::Store'') []
        = [''Error'', ''memory::manager::Store'']" by code_simp
  show ?thesis
    using bracketed_items_classified [OF h1 h2 h3 h4, of "'';''"] h4 by (simp add: e)
qed

lemma split_on_subset: "piece \<in> set (split_on sep s) \<Longrightarrow> set piece \<subseteq> set s"
proof (induction s arbitrary: piece)
  case Nil
  then show ?case by simp
next
  case (Cons c s)
  obtain p ps where ps: "split_on sep s = p # ps" by (cases "split_on sep s") auto
  have "set p \<subseteq> set s" and "\<And>q. q \<in> set ps \<Longrightarrow> set q \<subseteq> set s"
    using Cons.IH ps by auto
  then show ?case using Cons.prems ps by (auto simp: Let_def split: if_splits)
qed

lemma split_on_covers:
  "c \<in> set s \<Longrightarrow> c \<noteq> sep \<Longrightarrow> \<exists>piece\<in>set (split_on sep s). c \<in> set piece"
proof (induction s)
  case Nil
  then show ?case by simp
next
  case (Cons a s)
  obtain p ps where ps: "split_on sep s = p # ps" by (cases "split_on sep s") auto
  show ?case using Cons ps by (auto simp: Let_def split: if_splits)
qed

text \<open>
  Claim C4.  The item list is split at every comma, whatever surrounds the comma: the
  pieces of a text with a comma in it are the pieces in front of that comma followed by the
  pieces behind it.  A statement whose item text holds an opening bracket is matched and
  rewritten like any other, from these pieces, and one of the pieces holds a bracket that
  is never closed.  \<open>use crate::{a::{b, c}, d};\<close> becomes
  \<open>use crate::{memory::a::{b, memory::c}, d};\<close>.
\<close>

theorem naive_comma_split:
  assumes "items \<noteq> []" and "CHR ''}'' \<notin> set items" and "CHR ''{'' \<in> set items"
    and "ws \<noteq> []" and "\<forall>c\<in>set ws. is_space c"
  shows "pattern2 (''use'' @ ws @ ''crate::{'' @ items @ ''}'' @ rest) =
           Some (length ws + length items + 12,
                 ''use crate::{''
                 @ join '', '' (replace2_loop (map strip (split_on CHR '','' items)) []) @ ''}'')
         \<and> (\<forall>x y. split_on CHR '','' (x @ CHR '','' # y)
                    = split_on CHR '','' x @ split_on CHR '','' y)
         \<and> join '','' (split_on CHR '','' items) = items
         \<and> (\<forall>piece\<in>set (split_on CHR '','' items). CHR '','' \<notin> set piece)
         \<and> (\<exists>piece\<in>set (split_on CHR '','' items).
               CHR ''{'' \<in> set piece \<and> CHR ''}'' \<notin> set piece)
         \<and> transform_internal_memory_imports ''use crate::{a::{b, c}, d};''
             = ''use crate::{memory::a::{b, memory::c}, d};''"
proof (intro conjI)
  show "pattern2 (''use'' @ ws @ ''crate::{'' @ items @ ''}'' @ rest) =
           Some (length ws + length items + 12,
                 ''use crate::{''
                 @ join '', '' (replace2_loop (map strip (split_on CHR '','' items)) []) @ ''}'')"
    using pattern2_statement [OF assms(1,2,4,5)] by (simp add: replace2_def item_list_of_def)
  show "\<forall>x y. split_on CHR '','' (x @ CHR '','' # y)
                    = split_on CHR '','' x @ split_on CHR '','' y"
    by (simp add: split_on_append)
  show "join '','' (split_on CHR '','' items) = items"
    by (rule join_split_on)
  show "\<forall>piece\<in>set (split_on CHR '','' items). CHR '','' \<notin> set piece"
    by (simp add: split_on_no_sep)
  show "\<exists>piece\<in>set (split_on CHR '','' items).
               CHR ''{'' \<in> set piece \<and> CHR ''}'' \<notin> set piece"
  proof -
    obtain piece where p: "piece \<in> set (split_on CHR '','' items)" "CHR ''{'' \<in> set piece"
      using split_on_covers [OF assms(3), of "CHR '',''"] by auto
    have "CHR ''}'' \<notin> set piece"
      using split_on_subset [OF p(1)] assms(2) by blast
    with p show ?thesis by blast
  qed
  show "transform_internal_memory_imports ''use crate::{a::{b, c}, d};''
             = ''use crate::{memory::a::{b, memory::c}, d};''"
    by code_simp
qed

theorem naive_comma_split_witness:
  "''a::{b, c'' \<noteq> [] \<and> CHR ''}'' \<notin> set ''a::{b, c'' \<and> CHR ''{'' \<in> set ''a::{b, c''
   \<and> is_space CHR '' ''
   \<and> pattern2 ''use crate::{a::{b, c}, d};''
       = Some (21, ''use crate::{memory::a::{b, memory::c}'')
   \<and> split_on CHR '','' ''a::{b, c'' = [''a::{b'', '' c'']"
proof -
  have h1: "''a::{b, c'' \<noteq> []" by simp
  have h2: "CHR ''}'' \<notin> set ''a::{b, c''" by simp
  have h3: "CHR ''{'' \<in> set ''a::{b, c''" by simp
  have h4: "'' '' \<noteq> []" by simp
  have h5: "\<forall>c\<in>set '' ''. is_space c" by simp
  have e: "replace2_loop (map strip (split_on CHR '','' ''a::{b, c'')) []
             = [''memory::a::{b'', ''memory::c'']" by code_simp
  have s: "split_on CHR '','' ''a::{b, c'' = [''a::{b'', '' c'']" by code_simp
  have "pattern2 (''use'' @ '' '' @ ''crate::{'' @ ''a::{b, c'' @ ''}'' @ '', d};'') =
           Some (length '' '' + length ''a::{b, c'' + 12,
                 ''use crate::{''
                 @ join '', '' (replace2_loop (map strip (split_on CHR '','' ''a::{b, c'')) [])
                 @ ''}'')"
    using naive_comma_split [OF h1 h2 h3 h4 h5, of "'', d};''"] by blast
  then have "pattern2 ''use crate::{a::{b, c}, d};''
       = Some (21, ''use crate::{memory::a::{b, memory::c}'')"
    unfolding e by simp
  then show ?thesis using s by simp
qed

text \<open>
  Claim C7.  The rewritten items stand in the order of the original items: the item list
  after trimming and without the empty items, and the new item list, have the same length,
  and at each position the new item is the old one or the old one behind \<open>memory::\<close>.  The
  new statement is built from the new items in that order.
\<close>

theorem bracketed_order_preserved:
  "list_all2 (\<lambda>old new. new = old \<or> new = ''memory::'' @ old)
     (filter (\<lambda>i. i \<noteq> []) (map strip (split_on CHR '','' items)))
     (replace2_loop (item_list_of items) [])
   \<and> replace2 items
       = ''use crate::{'' @ join '', '' (replace2_loop (item_list_of items) []) @ ''}''
   \<and> replace2 ''A, sub::B, C'' = ''use crate::{memory::A, memory::sub::B, memory::C}''"
proof (intro conjI)
  have "list_all2 (\<lambda>old new. new = old \<or> new = ''memory::'' @ old)
     (filter (\<lambda>i. i \<noteq> []) (map strip (item_list_of items)))
     (replace2_loop (item_list_of items) [])"
    unfolding replace2_loop_map list_all2_map2
    by (rule list_all2_refl) auto
  then have "list_all2 (\<lambda>old new. new = old \<or> new = ''memory::'' @ old)
     (filter (\<lambda>i. i \<noteq> []) (item_list_of items))
     (replace2_loop (item_list_of items) [])"
    by (simp only: item_list_of_strip)
  then show "list_all2 (\<lambda>old new. new = old \<or> new = ''memory::'' @ old)
     (filter (\<lambda>i. i \<noteq> []) (map strip (split_on CHR '','' items)))
     (replace2_loop (item_list_of items) [])"
    unfolding item_list_of_def .
  show "replace2 items
       = ''use crate::{'' @ join '', '' (replace2_loop (item_list_of items) []) @ ''}''"
    by (simp add: replace2_def)
  show "replace2 ''A, sub::B, C'' = ''use crate::{memory::A, memory::sub::B, memory::C}''"
    by code_simp
qed

theorem bracketed_order_preserved_witness:
  "list_all2 (\<lambda>old new. new = old \<or> new = ''memory::'' @ old)
     (filter (\<lambda>i. i \<noteq> []) (map strip (split_on CHR '','' ''Error, , x::Y,'')))
     (replace2_loop (item_list_of ''Error, , x::Y,'') [])
   \<and> replace2_loop (item_list_of ''Error, , x::Y,'') [] = [''Error'', ''memory::x::Y'']"
proof -
  have e: "replace2_loop (item_list_of ''Error, , x::Y,'') [] = [''Error'', ''memory::x::Y'']"
    by code_simp
  show ?thesis
    using bracketed_order_preserved [of "''Error, , x::Y,''"] e by blast
qed

section \<open>Lemmas on the file system\<close>

lemma print_message_fields [simp]:
  "nodes (print_message w msg) = nodes w"
  "writes (print_message w msg) = writes w"
  "printed (print_message w msg) = printed w @ [msg]"
  by (simp_all add: print_message_def)

lemma read_text_print_message [simp]:
  "read_text (print_message w msg) p = read_text w p"
  by (simp add: read_text_def)

lemma exists_path_print_message [simp]:
  "exists_path (print_message w msg) p = exists_path w p"
  by (simp add: exists_path_def)

lemma read_text_exists: "read_text w p = Inr c \<Longrightarrow> exists_path w p"
  by (auto simp: read_text_def exists_path_def split: option.splits)

lemma write_text_result:
  assumes "write_text w p s = Inr w'"
  shows "read_text w' p = Inr s" and "writes w' = writes w @ [p]"
    and "printed w' = printed w" and "q \<noteq> p \<Longrightarrow> nodes w' q = nodes w q"
  using assms
  by (auto simp: write_text_def read_text_def split: option.splits node.splits if_splits)

lemma process_rust_file_read_error:
  "read_text w p = Inl e \<Longrightarrow>
     process_rust_file w p src = (print_message w (Error_processing p e), False)"
  by (simp add: process_rust_file_def)

lemma process_rust_file_unchanged:
  assumes "read_text w p = Inr c"
    and "(if is_memory_file p src
          then transform_internal_memory_imports (transform_external_imports c)
          else transform_external_imports c) = c"
  shows "process_rust_file w p src = (w, False)"
  using assms by (simp add: process_rust_file_def Let_def split: if_splits)

lemma process_rust_file_written:
  assumes "read_text w p = Inr c"
    and "(if is_memory_file p src
          then transform_internal_memory_imports (transform_external_imports c)
          else transform_external_imports c) = new"
    and "new \<noteq> c" and "write_text w p new = Inr w'"
  shows "process_rust_file w p src = (w', True)"
  using assms by (auto simp: process_rust_file_def Let_def split: if_splits)

lemma process_rust_file_write_error:
  assumes "read_text w p = Inr c"
    and "(if is_memory_file p src
          then transform_internal_memory_imports (transform_external_imports c)
          else transform_external_imports c) = new"
    and "new \<noteq> c" and "write_text w p new = Inl e"
  shows "process_rust_file w p src = (print_message w (Error_processing p e), False)"
  using assms by (auto simp: process_rust_file_def Let_def split: if_splits)

lemma process_rust_file_False:
  "process_rust_file w p src = (w', False) \<Longrightarrow> nodes w' = nodes w \<and> writes w' = writes w"
  by (auto simp: process_rust_file_def Let_def split: sum.splits if_splits)

lemma process_rust_file_True:
  assumes "process_rust_file w p src = (w', True)" and "read_text w p = Inr c"
  shows "read_text w' p =
           Inr (if is_memory_file p src
                then transform_internal_memory_imports (transform_external_imports c)
                else transform_external_imports c)
         \<and> writes w' = writes w @ [p]"
  using assms
  by (auto simp: process_rust_file_def Let_def write_text_result split: sum.splits if_splits)

lemma process_rust_file_result:
  assumes "read_text w p = Inr c"
    and "new = (if is_memory_file p src
                then transform_internal_memory_imports (transform_external_imports c)
                else transform_external_imports c)"
  shows "process_rust_file w p src =
           (if new \<noteq> c then
              (case write_text w p new of
                 Inl e \<Rightarrow> (print_message w (Error_processing p e), False)
               | Inr w2 \<Rightarrow> (w2, True))
            else (w, False))"
  using assms by (simp add: process_rust_file_def Let_def)

text \<open>
  Claim C8.  The external remap is applied to the text of every file, and the internal
  remaps only when \<open>is_memory_file\<close> holds.  For a file that can be read and written,
  \<open>process_rust_file\<close> leaves it with the external remap of its text when it is no memory
  file, and with the internal remaps of the external remap when it is one; it reports a
  change exactly when that text differs from the text read.  A file it reports as unchanged
  is not written.  \<open>is_memory_file\<close> is false, with no error, for a path that is not below
  the source root.
\<close>

theorem internal_remap_only_in_memory_files:
  assumes "read_text w p = Inr c" and "process_rust_file w p src = (w', changed)"
  shows "(changed \<longrightarrow>
            read_text w' p =
              Inr (if is_memory_file p src
                   then transform_internal_memory_imports (transform_external_imports c)
                   else transform_external_imports c))
         \<and> (changed \<and> \<not> is_memory_file p src \<longrightarrow>
              read_text w' p = Inr (transform_external_imports c))
         \<and> (\<not> changed \<longrightarrow> nodes w' = nodes w \<and> writes w' = writes w)
         \<and> (\<not> is_memory_file p src \<and> transform_external_imports c = c \<longrightarrow>
              w' = w \<and> \<not> changed)
         \<and> (relative_to p src = Inl ValueError \<longrightarrow> \<not> is_memory_file p src)
         \<and> (is_memory_file p src \<longleftrightarrow>
              (\<exists>rel. relative_to p src = Inr rel \<and> prefix ''memory/'' (path_str rel)))
         \<and> (\<forall>w2. \<not> is_memory_file p src
                \<and> write_text w p (transform_external_imports c) = Inr w2 \<longrightarrow>
              (w', changed)
                = (if transform_external_imports c \<noteq> c then (w2, True) else (w, False))
              \<and> read_text w' p = Inr (transform_external_imports c))
         \<and> (\<forall>w2. is_memory_file p src
                \<and> write_text w p
                     (transform_internal_memory_imports (transform_external_imports c))
                   = Inr w2 \<longrightarrow>
              (w', changed)
                = (if transform_internal_memory_imports (transform_external_imports c) \<noteq> c
                   then (w2, True) else (w, False))
              \<and> read_text w' p
                  = Inr (transform_internal_memory_imports (transform_external_imports c)))"
proof (intro conjI impI allI)
  assume changed
  then show "read_text w' p =
              Inr (if is_memory_file p src
                   then transform_internal_memory_imports (transform_external_imports c)
                   else transform_external_imports c)"
    using process_rust_file_True [of w p src w' c] assms by simp
next
  assume "changed \<and> \<not> is_memory_file p src"
  then show "read_text w' p = Inr (transform_external_imports c)"
    using process_rust_file_True [of w p src w' c] assms by simp
next
  assume "\<not> changed"
  then show "nodes w' = nodes w" and "writes w' = writes w"
    using process_rust_file_False [of w p src w'] assms by simp_all
next
  assume a: "\<not> is_memory_file p src \<and> transform_external_imports c = c"
  then have "process_rust_file w p src = (w, False)"
    using process_rust_file_unchanged [OF assms(1), of src] by simp
  then show "w' = w" and "\<not> changed" using assms(2) by simp_all
next
  assume "relative_to p src = Inl ValueError"
  then show "\<not> is_memory_file p src" by (simp add: is_memory_file_def)
next
  show "is_memory_file p src \<longleftrightarrow>
              (\<exists>rel. relative_to p src = Inr rel \<and> prefix ''memory/'' (path_str rel))"
    by (auto simp: is_memory_file_def split: sum.splits)
next
  fix w2
  assume a: "\<not> is_memory_file p src
                \<and> write_text w p (transform_external_imports c) = Inr w2"
  have r: "process_rust_file w p src
             = (if transform_external_imports c \<noteq> c then (w2, True) else (w, False))"
    using process_rust_file_result [OF assms(1), of "transform_external_imports c" src] a
    by simp
  then show "(w', changed)
                = (if transform_external_imports c \<noteq> c then (w2, True) else (w, False))"
    using assms(2) by simp
  show "read_text w' p = Inr (transform_external_imports c)"
    using r assms write_text_result(1) [of w p "transform_external_imports c" w2] a
    by (auto split: if_splits)
next
  fix w2
  assume a: "is_memory_file p src
                \<and> write_text w p
                     (transform_internal_memory_imports (transform_external_imports c))
                   = Inr w2"
  let ?new = "transform_internal_memory_imports (transform_external_imports c)"
  have r: "process_rust_file w p src = (if ?new \<noteq> c then (w2, True) else (w, False))"
    using process_rust_file_result [OF assms(1), of ?new src] a by simp
  then show "(w', changed) = (if ?new \<noteq> c then (w2, True) else (w, False))"
    using assms(2) by simp
  show "read_text w' p = Inr ?new"
    using r assms write_text_result(1) [of w p ?new w2] a by (auto split: if_splits)
qed

theorem internal_remap_only_in_memory_files_witness:
  "read_text \<lparr>nodes = [[''src'', ''memory'', ''a.rs''] \<mapsto>
                         File (Inr ''use paraphym_memory::y; use crate::x;'') True],
              writes = [], printed = []\<rparr> [''src'', ''memory'', ''a.rs'']
     = Inr ''use paraphym_memory::y; use crate::x;''
   \<and> is_memory_file [''src'', ''memory'', ''a.rs''] [''src'']
   \<and> process_rust_file
        \<lparr>nodes = [[''src'', ''memory'', ''a.rs''] \<mapsto>
                      File (Inr ''use paraphym_memory::y; use crate::x;'') True],
          writes = [], printed = []\<rparr> [''src'', ''memory'', ''a.rs''] [''src'']
     = (\<lparr>nodes = [[''src'', ''memory'', ''a.rs''] \<mapsto>
                      File (Inr ''use paraphym_candle::memory::y; use crate::memory::x;'') True],
          writes = [[''src'', ''memory'', ''a.rs'']], printed = []\<rparr>, True)
   \<and> read_text \<lparr>nodes = [[''src'', ''agent.rs''] \<mapsto>
                         File (Inr ''use paraphym_memory::y; use crate::x;'') True],
              writes = [], printed = []\<rparr> [''src'', ''agent.rs'']
     = Inr ''use paraphym_memory::y; use crate::x;''
   \<and> process_rust_file
        \<lparr>nodes = [[''src'', ''agent.rs''] \<mapsto>
                      File (Inr ''use paraphym_memory::y; use crate::x;'') True],
          writes = [], printed = []\<rparr> [''src'', ''agent.rs''] [''src'']
     = (\<lparr>nodes = [[''src'', ''agent.rs''] \<mapsto>
                      File (Inr ''use paraphym_candle::memory::y; use crate::x;'') True],
          writes = [[''src'', ''agent.rs'']], printed = []\<rparr>, True)"
proof -
  let ?c = "''use paraphym_memory::y; use crate::x;''"
  let ?p = "[''src'', ''memory'', ''a.rs'']"
  let ?q = "[''src'', ''agent.rs'']"
  let ?w0 = "\<lparr>nodes = [?p \<mapsto> File (Inr ?c) True], writes = [], printed = []\<rparr>"
  let ?w1 = "\<lparr>nodes = [?p \<mapsto> File (Inr ''use paraphym_candle::memory::y; use crate::memory::x;'') True],
              writes = [?p], printed = []\<rparr>"
  let ?v0 = "\<lparr>nodes = [?q \<mapsto> File (Inr ?c) True], writes = [], printed = []\<rparr>"
  let ?v1 = "\<lparr>nodes = [?q \<mapsto> File (Inr ''use paraphym_candle::memory::y; use crate::x;'') True],
              writes = [?q], printed = []\<rparr>"
  have e: "transform_external_imports ?c = ''use paraphym_candle::memory::y; use crate::x;''"
    by code_simp
  have i: "transform_internal_memory_imports (transform_external_imports ?c)
             = ''use paraphym_candle::memory::y; use crate::memory::x;''"
    by code_simp
  have m: "is_memory_file ?p [''src'']" by code_simp
  have n: "\<not> is_memory_file ?q [''src'']" by code_simp
  have h1: "read_text ?w0 ?p = Inr ?c" by (simp add: read_text_def)
  have g1: "read_text ?v0 ?q = Inr ?c" by (simp add: read_text_def)
  have wr: "write_text ?w0 ?p (transform_internal_memory_imports (transform_external_imports ?c))
              = Inr ?w1"
    unfolding i by (simp add: write_text_def)
  have vr: "write_text ?v0 ?q (transform_external_imports ?c) = Inr ?v1"
    unfolding e by (simp add: write_text_def)
  obtain w' ch where h2: "process_rust_file ?w0 ?p [''src''] = (w', ch)"
    by (cases "process_rust_file ?w0 ?p [''src'']")
  obtain v' dh where g2: "process_rust_file ?v0 ?q [''src''] = (v', dh)"
    by (cases "process_rust_file ?v0 ?q [''src'']")
  have "(w', ch) = (if transform_internal_memory_imports (transform_external_imports ?c) \<noteq> ?c
                    then (?w1, True) else (?w0, False))"
    using internal_remap_only_in_memory_files [OF h1 h2] m wr by blast
  then have a: "process_rust_file ?w0 ?p [''src''] = (?w1, True)"
    unfolding i using h2 by simp
  have "(v', dh) = (if transform_external_imports ?c \<noteq> ?c then (?v1, True) else (?v0, False))"
    using internal_remap_only_in_memory_files [OF g1 g2] n vr by blast
  then have b: "process_rust_file ?v0 ?q [''src''] = (?v1, True)"
    unfolding e using g2 by simp
  show ?thesis using h1 g1 m a b by blast
qed




lemma process_all_completes:
  "\<forall>g\<in>set files. prefix src g \<Longrightarrow>
     \<exists>w' k. process_all w src files n m = Completed w' (n + length files) k"
proof (induction files arbitrary: w n m)
  case Nil
  show ?case by simp
next
  case (Cons f files)
  obtain w1 ch where p: "process_rust_file w f src = (w1, ch)"
    by (cases "process_rust_file w f src")
  have r: "relative_to f src = Inr (drop (length src) f)"
    using Cons.prems by (simp add: relative_to_def)
  obtain w' k where "process_all w1 src files (n + 1) (if ch then m + 1 else m)
                       = Completed w' (n + 1 + length files) k"
    using Cons.IH [of w1 "n + 1" "if ch then m + 1 else m"] Cons.prems by auto
  then show ?case using p r by simp
qed

text \<open>
  Claim C6, as the code has it.  \<open>process_rust_file\<close> writes a file back exactly when the
  text it computed differs from the text it read: with equal texts the world is left as it
  is, and with different texts the one write that follows stores the new text.  The third
  fix of the other script has no such test: whenever its file can be read, the write that
  follows is made.
\<close>

theorem write_back_iff_changed:
  assumes "read_text w p = Inr c"
    and "new = (if is_memory_file p src
                then transform_internal_memory_imports (transform_external_imports c)
                else transform_external_imports c)"
  shows "(new = c \<longrightarrow> process_rust_file w p src = (w, False))
         \<and> (new \<noteq> c \<longrightarrow>
              (\<forall>w'. write_text w p new = Inr w' \<longrightarrow>
                 process_rust_file w p src = (w', True)
                 \<and> writes w' = writes w @ [p] \<and> read_text w' p = Inr new))
         \<and> (\<forall>w'. fix3 w p = Inr w' \<longrightarrow> writes w' = writes w @ [p])"
proof (intro conjI impI allI)
  assume "new = c"
  then show "process_rust_file w p src = (w, False)"
    using process_rust_file_unchanged [OF assms(1), of src] assms(2) by simp
next
  fix w'
  assume n: "new \<noteq> c" and wr: "write_text w p new = Inr w'"
  show "process_rust_file w p src = (w', True)"
    using process_rust_file_written [OF assms(1) assms(2) [symmetric] n wr] .
  show "writes w' = writes w @ [p]" using write_text_result(2) [OF wr] .
  show "read_text w' p = Inr new" using write_text_result(1) [OF wr] .
next
  fix w'
  assume "fix3 w p = Inr w'"
  then have "write_text w p
               (re_sub (literal_pattern ''progresshub::types::ZeroOneOrMany::None''
                                        ''progresshub::types::ZeroOneOrMany::Zero'') c) = Inr w'"
    using assms(1) read_text_exists [OF assms(1)] by (simp add: fix3_def)
  then show "writes w' = writes w @ [p]" by (rule write_text_result(2))
qed

theorem write_back_iff_changed_witness:
  "read_text \<lparr>nodes = [[''src'', ''memory'', ''a.rs''] \<mapsto> File (Inr ''use crate::x;'') True],
              writes = [], printed = []\<rparr> [''src'', ''memory'', ''a.rs''] = Inr ''use crate::x;''
   \<and> ''use crate::memory::x;'' \<noteq> ''use crate::x;''
   \<and> process_rust_file
        \<lparr>nodes = [[''src'', ''memory'', ''a.rs''] \<mapsto> File (Inr ''use crate::x;'') True],
          writes = [], printed = []\<rparr> [''src'', ''memory'', ''a.rs''] [''src'']
       = (\<lparr>nodes = [[''src'', ''memory'', ''a.rs''] \<mapsto> File (Inr ''use crate::memory::x;'') True],
            writes = [[''src'', ''memory'', ''a.rs'']], printed = []\<rparr>, True)"
proof -
  let ?p = "[''src'', ''memory'', ''a.rs'']"
  let ?w0 = "\<lparr>nodes = [?p \<mapsto> File (Inr ''use crate::x;'') True], writes = [], printed = []\<rparr>"
  let ?w1 = "\<lparr>nodes = [?p \<mapsto> File (Inr ''use crate::memory::x;'') True],
              writes = [?p], printed = []\<rparr>"
  have h1: "read_text ?w0 ?p = Inr ''use crate::x;''" by (simp add: read_text_def)
  have m: "is_memory_file ?p [''src'']" by code_simp
  have e: "transform_internal_memory_imports (transform_external_imports ''use crate::x;'')
             = ''use crate::memory::x;''" by code_simp
  have h2: "''use crate::memory::x;'' =
              (if is_memory_file ?p [''src'']
               then transform_internal_memory_imports (transform_external_imports ''use crate::x;'')
               else transform_external_imports ''use crate::x;'')"
    using m e by simp
  have n: "''use crate::memory::x;'' \<noteq> ''use crate::x;''" by simp
  have wr: "write_text ?w0 ?p ''use crate::memory::x;'' = Inr ?w1"
    by (simp add: write_text_def)
  have "process_rust_file ?w0 ?p [''src''] = (?w1, True)"
    using write_back_iff_changed [OF h1 h2] n wr by blast
  with h1 n show ?thesis by blast
qed

text \<open>
  Claim C6 as stated fails on the third fix: it writes a file that no rule changed.  The
  text is the same and the write is made.
\<close>

theorem fix3_writes_unchanged_text:
  "fix3 \<lparr>nodes = [[''providers'', ''qwen3_coder.rs''] \<mapsto> File (Inr ''fn main() {}'') True],
         writes = [], printed = []\<rparr> [''providers'', ''qwen3_coder.rs'']
     = Inr \<lparr>nodes = [[''providers'', ''qwen3_coder.rs''] \<mapsto> File (Inr ''fn main() {}'') True],
            writes = [[''providers'', ''qwen3_coder.rs'']], printed = []\<rparr>"
proof -
  have e: "re_sub (literal_pattern ''progresshub::types::ZeroOneOrMany::None''
                                   ''progresshub::types::ZeroOneOrMany::Zero'') ''fn main() {}''
             = ''fn main() {}''"
    by code_simp
  show ?thesis
    by (simp add: fix3_def exists_path_def read_text_def write_text_def e del: re_sub.simps)
qed

lemma main_cases:
  assumes "\<forall>g\<in>set files. prefix src g"
  shows "case main w src files of
           Returned_early w' \<Rightarrow>
             \<not> exists_path w src \<and> w' = print_message w (Error_src_not_found src)
         | Raised e w' \<Rightarrow>
             exists_path w src \<and> exists_path w (src @ [''lib.rs'']) \<and> w' = w
             \<and> (read_text w (src @ [''lib.rs'']) = Inl e
                 \<or> (\<exists>c. read_text w (src @ [''lib.rs'']) = Inr c \<and> \<not> has_memory_decl c
                        \<and> write_text w (src @ [''lib.rs'']) (insert_memory_decl c) = Inl e))
         | Completed w' n k \<Rightarrow> exists_path w src \<and> n = length files"
proof (cases "exists_path w src")
  case False
  then show ?thesis by (simp add: main_def)
next
  case True
  let ?lib = "src @ [''lib.rs'']"
  show ?thesis
  proof (cases "add_memory_module_to_lib w ?lib")
    case (Inl e)
    then have m: "main w src files = Raised e w" using True by (simp add: main_def)
    from Inl have "exists_path w ?lib \<and>
        (read_text w ?lib = Inl e
         \<or> (\<exists>c. read_text w ?lib = Inr c \<and> \<not> has_memory_decl c
                \<and> write_text w ?lib (insert_memory_decl c) = Inl e))"
      by (auto simp: add_memory_module_to_lib_def split: if_splits sum.splits)
    then show ?thesis using m True by simp
  next
    case (Inr r)
    obtain w1 added where r: "r = (w1, added)" by (cases r)
    obtain w' k where "process_all w1 src files 0 0 = Completed w' (0 + length files) k"
      using process_all_completes [OF assms, of w1 0 0] by blast
    then show ?thesis using Inr r True by (simp add: main_def)
  qed
qed

text \<open>
  Claim C5, as the code has it.  A missing source root ends \<open>main\<close> at once, with the files
  as they were.  A missing anchor file does not: the warning is printed and the candidate
  files are processed.  An anchor file that is there but cannot be read, or cannot be
  written when the declaration has to be inserted, raises out of \<open>main\<close> before any
  candidate file is processed, with the files as they were.  For candidate files below the
  source root these are the only runs that do not process every file.  An error in reading
  or writing one candidate file is caught and printed, the file counts as unchanged and
  stays as it was, and the loop goes on with the files that follow.
\<close>

theorem per_file_errors_are_caught:
  "(\<not> exists_path w src \<longrightarrow>
      main w src files = Returned_early (print_message w (Error_src_not_found src)))
   \<and> (exists_path w src \<and> \<not> exists_path w (src @ [''lib.rs'']) \<longrightarrow>
        main w src files
          = process_all (print_message w (Warning_not_found (src @ [''lib.rs'']))) src files 0 0)
   \<and> (\<forall>e. read_text w f = Inl e \<longrightarrow>
          process_rust_file w f src = (print_message w (Error_processing f e), False))
   \<and> (\<forall>c new e. read_text w f = Inr c
          \<and> new = (if is_memory_file f src
                   then transform_internal_memory_imports (transform_external_imports c)
                   else transform_external_imports c)
          \<and> new \<noteq> c \<and> write_text w f new = Inl e \<longrightarrow>
          process_rust_file w f src = (print_message w (Error_processing f e), False))
   \<and> (\<forall>w'. process_rust_file w f src = (w', False) \<longrightarrow>
          nodes w' = nodes w \<and> writes w' = writes w)
   \<and> (\<forall>e rest n k. prefix src f \<and> read_text w f = Inl e \<longrightarrow>
          process_all w src (f # rest) n k
            = process_all (print_message w (Error_processing f e)) src rest (n + 1) k)
   \<and> ((\<forall>g\<in>set files. prefix src g) \<longrightarrow>
          (\<exists>w' k. process_all w src files 0 0 = Completed w' (length files) k))
   \<and> (\<forall>e. exists_path w src \<and> exists_path w (src @ [''lib.rs''])
          \<and> read_text w (src @ [''lib.rs'']) = Inl e \<longrightarrow>
          main w src files = Raised e w)
   \<and> (\<forall>c e. exists_path w src \<and> read_text w (src @ [''lib.rs'']) = Inr c
          \<and> \<not> has_memory_decl c
          \<and> write_text w (src @ [''lib.rs'']) (insert_memory_decl c) = Inl e \<longrightarrow>
          main w src files = Raised e w)
   \<and> ((\<forall>g\<in>set files. prefix src g) \<longrightarrow>
        (case main w src files of
           Returned_early w' \<Rightarrow>
             \<not> exists_path w src \<and> w' = print_message w (Error_src_not_found src)
         | Raised e w' \<Rightarrow>
             exists_path w src \<and> exists_path w (src @ [''lib.rs'']) \<and> w' = w
             \<and> (read_text w (src @ [''lib.rs'']) = Inl e
                 \<or> (\<exists>c. read_text w (src @ [''lib.rs'']) = Inr c \<and> \<not> has_memory_decl c
                        \<and> write_text w (src @ [''lib.rs'']) (insert_memory_decl c) = Inl e))
         | Completed w' n k \<Rightarrow> exists_path w src \<and> n = length files))"
proof (intro conjI impI allI)
  assume "\<not> exists_path w src"
  then show "main w src files = Returned_early (print_message w (Error_src_not_found src))"
    by (simp add: main_def)
next
  assume "exists_path w src \<and> \<not> exists_path w (src @ [''lib.rs''])"
  then show "main w src files
          = process_all (print_message w (Warning_not_found (src @ [''lib.rs'']))) src files 0 0"
    by (simp add: main_def add_memory_module_to_lib_def)
next
  fix e
  assume "read_text w f = Inl e"
  then show "process_rust_file w f src = (print_message w (Error_processing f e), False)"
    by (rule process_rust_file_read_error)
next
  fix c new e
  assume a: "read_text w f = Inr c
          \<and> new = (if is_memory_file f src
                   then transform_internal_memory_imports (transform_external_imports c)
                   else transform_external_imports c)
          \<and> new \<noteq> c \<and> write_text w f new = Inl e"
  from a have r: "read_text w f = Inr c" by blast
  from a have n: "(if is_memory_file f src
                   then transform_internal_memory_imports (transform_external_imports c)
                   else transform_external_imports c) = new" by blast
  from a have ne: "new \<noteq> c" and wr: "write_text w f new = Inl e" by blast+
  show "process_rust_file w f src = (print_message w (Error_processing f e), False)"
    using process_rust_file_write_error [OF r n ne wr] .
next
  fix w'
  assume "process_rust_file w f src = (w', False)"
  then show "nodes w' = nodes w" and "writes w' = writes w"
    using process_rust_file_False [of w f src w'] by simp_all
next
  fix e rest n k
  assume a: "prefix src f \<and> read_text w f = Inl e"
  then have "relative_to f src = Inr (drop (length src) f)" by (simp add: relative_to_def)
  then show "process_all w src (f # rest) n k
            = process_all (print_message w (Error_processing f e)) src rest (n + 1) k"
    using a by (simp add: process_rust_file_read_error)
next
  assume "\<forall>g\<in>set files. prefix src g"
  then show "\<exists>w' k. process_all w src files 0 0 = Completed w' (length files) k"
    using process_all_completes [of files src w 0 0] by simp
next
  fix e
  assume "exists_path w src \<and> exists_path w (src @ [''lib.rs''])
          \<and> read_text w (src @ [''lib.rs'']) = Inl e"
  then show "main w src files = Raised e w"
    by (simp add: main_def add_memory_module_to_lib_def)
next
  fix c e
  assume a: "exists_path w src \<and> read_text w (src @ [''lib.rs'']) = Inr c
          \<and> \<not> has_memory_decl c
          \<and> write_text w (src @ [''lib.rs'']) (insert_memory_decl c) = Inl e"
  then have "exists_path w (src @ [''lib.rs''])" using read_text_exists by blast
  then show "main w src files = Raised e w"
    using a by (simp add: main_def add_memory_module_to_lib_def)
next
  assume "\<forall>g\<in>set files. prefix src g"
  then show "case main w src files of
           Returned_early w' \<Rightarrow>
             \<not> exists_path w src \<and> w' = print_message w (Error_src_not_found src)
         | Raised e w' \<Rightarrow>
             exists_path w src \<and> exists_path w (src @ [''lib.rs'']) \<and> w' = w
             \<and> (read_text w (src @ [''lib.rs'']) = Inl e
                 \<or> (\<exists>c. read_text w (src @ [''lib.rs'']) = Inr c \<and> \<not> has_memory_decl c
                        \<and> write_text w (src @ [''lib.rs'']) (insert_memory_decl c) = Inl e))
         | Completed w' n k \<Rightarrow> exists_path w src \<and> n = length files"
    by (rule main_cases)
qed

theorem per_file_errors_are_caught_witness:
  "exists_path \<lparr>nodes = [[''src''] \<mapsto> Dir,
                           [''src'', ''bad.rs''] \<mapsto> File (Inl UnicodeDecodeError) True,
                           [''src'', ''memory'', ''a.rs''] \<mapsto> File (Inr ''use crate::x;'') True],
                 writes = [], printed = []\<rparr> [''src'']
   \<and> \<not> exists_path \<lparr>nodes = [[''src''] \<mapsto> Dir,
                           [''src'', ''bad.rs''] \<mapsto> File (Inl UnicodeDecodeError) True,
                           [''src'', ''memory'', ''a.rs''] \<mapsto> File (Inr ''use crate::x;'') True],
                 writes = [], printed = []\<rparr> [''src'', ''lib.rs'']
   \<and> read_text \<lparr>nodes = [[''src''] \<mapsto> Dir,
                           [''src'', ''bad.rs''] \<mapsto> File (Inl UnicodeDecodeError) True,
                           [''src'', ''memory'', ''a.rs''] \<mapsto> File (Inr ''use crate::x;'') True],
                 writes = [], printed = []\<rparr> [''src'', ''bad.rs''] = Inl UnicodeDecodeError
   \<and> main \<lparr>nodes = [[''src''] \<mapsto> Dir,
                      [''src'', ''bad.rs''] \<mapsto> File (Inl UnicodeDecodeError) True,
                      [''src'', ''memory'', ''a.rs''] \<mapsto> File (Inr ''use crate::x;'') True],
            writes = [], printed = []\<rparr> [''src'']
        [[''src'', ''bad.rs''], [''src'', ''memory'', ''a.rs'']]
       = Completed
           \<lparr>nodes = [[''src''] \<mapsto> Dir,
                     [''src'', ''bad.rs''] \<mapsto> File (Inl UnicodeDecodeError) True,
                     [''src'', ''memory'', ''a.rs'']
                       \<mapsto> File (Inr ''use crate::memory::x;'') True],
             writes = [[''src'', ''memory'', ''a.rs'']],
             printed = [Warning_not_found [''src'', ''lib.rs''],
                        Error_processing [''src'', ''bad.rs''] UnicodeDecodeError]\<rparr> 2 1
   \<and> main \<lparr>nodes = [[''src''] \<mapsto> Dir,
                      [''src'', ''lib.rs''] \<mapsto> File (Inl PermissionError) True,
                      [''src'', ''memory'', ''a.rs''] \<mapsto> File (Inr ''use crate::x;'') True],
            writes = [], printed = []\<rparr> [''src'']
        [[''src'', ''lib.rs''], [''src'', ''memory'', ''a.rs'']]
       = Raised PermissionError
           \<lparr>nodes = [[''src''] \<mapsto> Dir,
                     [''src'', ''lib.rs''] \<mapsto> File (Inl PermissionError) True,
                     [''src'', ''memory'', ''a.rs''] \<mapsto> File (Inr ''use crate::x;'') True],
             writes = [], printed = []\<rparr>"
proof -
  let ?v = "\<lparr>nodes = [[''src''] \<mapsto> Dir,
                      [''src'', ''lib.rs''] \<mapsto> File (Inl PermissionError) True,
                      [''src'', ''memory'', ''a.rs''] \<mapsto> File (Inr ''use crate::x;'') True],
            writes = [], printed = []\<rparr>"
  have v: "exists_path ?v [''src''] \<and> exists_path ?v ([''src''] @ [''lib.rs''])
           \<and> read_text ?v ([''src''] @ [''lib.rs'']) = Inl PermissionError"
    by (simp add: exists_path_def read_text_def)
  have s4: "main ?v [''src''] [[''src'', ''lib.rs''], [''src'', ''memory'', ''a.rs'']]
              = Raised PermissionError ?v"
    using per_file_errors_are_caught
      [of ?v "[''src'']" "[[''src'', ''lib.rs''], [''src'', ''memory'', ''a.rs'']]" "[]"] v
    by blast
  let ?bad = "[''src'', ''bad.rs'']"
  let ?good = "[''src'', ''memory'', ''a.rs'']"
  let ?w0 = "\<lparr>nodes = [[''src''] \<mapsto> Dir, ?bad \<mapsto> File (Inl UnicodeDecodeError) True,
                        ?good \<mapsto> File (Inr ''use crate::x;'') True],
              writes = [], printed = []\<rparr>"
  let ?w1 = "print_message ?w0 (Warning_not_found ([''src''] @ [''lib.rs'']))"
  let ?w2 = "print_message ?w1 (Error_processing ?bad UnicodeDecodeError)"
  have x: "exists_path ?w0 [''src'']" and nx: "\<not> exists_path ?w0 [''src'', ''lib.rs'']"
    by (simp_all add: exists_path_def)
  have r: "read_text ?w0 ?bad = Inl UnicodeDecodeError" by (simp add: read_text_def)
  have m: "is_memory_file ?good [''src'']" by code_simp
  have e: "transform_internal_memory_imports (transform_external_imports ''use crate::x;'')
             = ''use crate::memory::x;''" by code_simp
  have s1: "main ?w0 [''src''] [?bad, ?good] = process_all ?w1 [''src''] [?bad, ?good] 0 0"
    using per_file_errors_are_caught [of ?w0 "[''src'']" "[?bad, ?good]" ?bad] x nx by simp
  have s2: "process_all ?w1 [''src''] (?bad # [?good]) 0 0
              = process_all ?w2 [''src''] [?good] (0 + 1) 0"
    using per_file_errors_are_caught [of ?w1 "[''src'']" "[]" ?bad] r by simp
  have s3: "process_all ?w2 [''src''] [?good] (0 + 1) 0 =
        Completed
           \<lparr>nodes = [[''src''] \<mapsto> Dir, ?bad \<mapsto> File (Inl UnicodeDecodeError) True,
                     ?good \<mapsto> File (Inr ''use crate::memory::x;'') True],
             writes = [?good],
             printed = [Warning_not_found [''src'', ''lib.rs''],
                        Error_processing ?bad UnicodeDecodeError]\<rparr> 2 1"
    by (simp add: relative_to_def process_rust_file_def read_text_def write_text_def
        print_message_def m e Let_def)
  show ?thesis using x nx r s1 s2 s3 s4 by simp
qed

text \<open>
  Claim C5 as stated fails for the anchor file: a run without it is not stopped, and it
  changes the candidate file.
\<close>

theorem missing_anchor_run_changes_files:
  "\<not> exists_path \<lparr>nodes = [[''src''] \<mapsto> Dir,
                           [''src'', ''memory'', ''a.rs''] \<mapsto> File (Inr ''use crate::x;'') True],
                   writes = [], printed = []\<rparr> [''src'', ''lib.rs'']
   \<and> main \<lparr>nodes = [[''src''] \<mapsto> Dir,
                      [''src'', ''memory'', ''a.rs''] \<mapsto> File (Inr ''use crate::x;'') True],
            writes = [], printed = []\<rparr> [''src''] [[''src'', ''memory'', ''a.rs'']]
       = Completed
           \<lparr>nodes = [[''src''] \<mapsto> Dir,
                     [''src'', ''memory'', ''a.rs'']
                       \<mapsto> File (Inr ''use crate::memory::x;'') True],
             writes = [[''src'', ''memory'', ''a.rs'']],
             printed = [Warning_not_found [''src'', ''lib.rs'']]\<rparr> 1 1"
proof -
  have m: "is_memory_file [''src'', ''memory'', ''a.rs''] [''src'']" by code_simp
  have e: "transform_internal_memory_imports (transform_external_imports ''use crate::x;'')
             = ''use crate::memory::x;''" by code_simp
  show ?thesis
    by (simp add: main_def add_memory_module_to_lib_def exists_path_def relative_to_def
        process_rust_file_def read_text_def write_text_def print_message_def m e Let_def)
qed

section \<open>The declaration inserter\<close>

lemma memory_decl_pattern_decl: "memory_decl_pattern (''pub mod memory;'' @ x) \<noteq> None"
  by (simp add: memory_decl_pattern_def is_space_def)

lemma re_search_multiline_line:
  "m (b # bs) \<noteq> None \<Longrightarrow> re_search_multiline m bol (a @ CHR 0x0A # b # bs)"
  by (induction a arbitrary: bol) auto

lemma has_memory_decl_line: "has_memory_decl (a @ CHR 0x0A # ''pub mod memory;'' @ x)"
  unfolding has_memory_decl_def
  using re_search_multiline_line [of memory_decl_pattern "CHR ''p''" "''ub mod memory;'' @ x" True a]
    memory_decl_pattern_decl [of x]
  by simp

lemma join_append:
  "xs \<noteq> [] \<Longrightarrow> ys \<noteq> [] \<Longrightarrow> join sep (xs @ ys) = join sep xs @ sep @ join sep ys"
proof (induction xs)
  case Nil
  then show ?case by simp
next
  case (Cons x xs)
  show ?case
  proof (cases "xs = []")
    case True
    then show ?thesis using Cons.prems by (simp add: join_Cons)
  next
    case False
    then show ?thesis using Cons by (simp add: join_Cons)
  qed
qed

lemma find_insert_line_bound: "find_insert_line i xs \<le> i + length xs"
proof (induction xs arbitrary: i)
  case Nil
  show ?case by simp
next
  case (Cons a xs)
  show ?case using Cons.IH [of "Suc i"] by auto
qed

lemma insert_three_lines:
  assumes "i \<le> length xs"
  shows "list_insert (list_insert (list_insert xs i a) (Suc i) b) (Suc (Suc i)) c
           = take i xs @ [a, b, c] @ drop i xs"
  using assms by (simp add: list_insert_def min_def)

lemma insert_memory_decl_lines:
  assumes "finditer_ends pub_mod_pattern True 0 content = []"
  shows "insert_memory_decl content =
           join [CHR 0x0A]
             (take (find_insert_line 0 (split_on CHR 0x0A content)) (split_on CHR 0x0A content)
              @ [doc_line, ''pub mod memory;'', []]
              @ drop (find_insert_line 0 (split_on CHR 0x0A content)) (split_on CHR 0x0A content))"
proof -
  have "find_insert_line 0 (split_on CHR 0x0A content) \<le> length (split_on CHR 0x0A content)"
    using find_insert_line_bound [of 0] by simp
  then show ?thesis
    using assms by (simp add: insert_memory_decl_def Let_def insert_three_lines del: split_on.simps)
qed

lemma insert_memory_decl_shape:
  "\<exists>a x. insert_memory_decl content = a @ CHR 0x0A # ''pub mod memory;'' @ x"
proof (cases "finditer_ends pub_mod_pattern True 0 content = []")
  case False
  let ?pos = "last (finditer_ends pub_mod_pattern True 0 content)"
  have "insert_memory_decl content
          = (take ?pos content @ [CHR 0x0A] @ doc_line) @ CHR 0x0A # ''pub mod memory;''
            @ drop ?pos content"
    using False by (simp add: insert_memory_decl_def Let_def)
  then show ?thesis by blast
next
  case True
  let ?ls = "split_on CHR 0x0A content"
  let ?i = "find_insert_line 0 ?ls"
  have "insert_memory_decl content
          = join [CHR 0x0A] ((take ?i ?ls @ [doc_line]) @ (''pub mod memory;'' # [] # drop ?i ?ls))"
    using insert_memory_decl_lines [OF True] by simp
  also have "\<dots> = join [CHR 0x0A] (take ?i ?ls @ [doc_line]) @ [CHR 0x0A]
                   @ join [CHR 0x0A] (''pub mod memory;'' # [] # drop ?i ?ls)"
    by (rule join_append) simp_all
  also have "\<dots> = join [CHR 0x0A] (take ?i ?ls @ [doc_line]) @ CHR 0x0A # ''pub mod memory;''
                   @ ([CHR 0x0A] @ join [CHR 0x0A] ([] # drop ?i ?ls))"
    by (simp add: join_Cons)
  finally show ?thesis by blast
qed

lemma has_memory_decl_insert: "has_memory_decl (insert_memory_decl content)"
proof -
  obtain a x where "insert_memory_decl content = a @ CHR 0x0A # ''pub mod memory;'' @ x"
    using insert_memory_decl_shape by blast
  then show ?thesis using has_memory_decl_line [of a x] by simp
qed


section \<open>Where the declaration goes\<close>

lemma find_insert_line_takeWhile:
  "find_insert_line i ls =
     (if \<exists>l\<in>set ls. strip l \<noteq> [] \<and> \<not> prefix ''//'' (strip l) \<and> \<not> prefix ''#!'' (strip l)
      then i + length (takeWhile (\<lambda>l. \<not> (strip l \<noteq> [] \<and> \<not> prefix ''//'' (strip l)
                                            \<and> \<not> prefix ''#!'' (strip l))) ls)
      else 0)"
proof (induction ls arbitrary: i)
  case Nil
  show ?case by simp
next
  case (Cons l ls)
  show ?case using Cons.IH [of "Suc i"] by auto
qed

lemma re_search_multiline_iff:
  assumes "m [] = None"
  shows "re_search_multiline m bol s \<longleftrightarrow>
           (\<exists>x y. s = x @ y \<and> (if x = [] then bol else last x = CHR 0x0A) \<and> m y \<noteq> None)"
proof (induction s arbitrary: bol)
  case Nil
  show ?case using assms by simp
next
  case (Cons c cs)
  have "(\<exists>x y. c # cs = x @ y \<and> (if x = [] then bol else last x = CHR 0x0A) \<and> m y \<noteq> None)
        \<longleftrightarrow> (bol \<and> m (c # cs) \<noteq> None)
            \<or> (\<exists>x' y. cs = x' @ y \<and> (if x' = [] then c = CHR 0x0A else last x' = CHR 0x0A)
                  \<and> m y \<noteq> None)"
    (is "?L \<longleftrightarrow> ?A \<or> ?B")
  proof
    assume ?L
    then obtain x y where xy: "c # cs = x @ y"
      "if x = [] then bol else last x = CHR 0x0A" "m y \<noteq> None" by blast
    show "?A \<or> ?B"
    proof (cases x)
      case Nil
      then show ?thesis using xy by auto
    next
      case (Cons d x')
      then have "cs = x' @ y" and "d = c" using xy(1) by simp_all
      moreover have "if x' = [] then c = CHR 0x0A else last x' = CHR 0x0A"
        using xy(2) Cons \<open>d = c\<close> by (auto split: if_splits)
      ultimately show ?thesis using xy(3) by blast
    qed
  next
    assume "?A \<or> ?B"
    then show ?L
    proof
      assume ?A
      then have "c # cs = [] @ (c # cs) \<and> (if [] = ([]::string) then bol else False)
                 \<and> m (c # cs) \<noteq> None" by simp
      then show ?L by (metis (full_types))
    next
      assume ?B
      then obtain x' y where b: "cs = x' @ y"
        "if x' = [] then c = CHR 0x0A else last x' = CHR 0x0A" "m y \<noteq> None" by blast
      have "c # cs = (c # x') @ y" using b(1) by simp
      moreover have "last (c # x') = CHR 0x0A" using b(2) by (auto split: if_splits)
      ultimately show ?L using b(3) by (metis list.distinct(1))
    qed
  qed
  then show ?case using Cons.IH [of "c = CHR 0x0A"] by simp
qed

lemma finditer_ends_Nil_iff:
  assumes "m [] = None"
  shows "finditer_ends m bol pos s = [] \<longleftrightarrow> \<not> re_search_multiline m bol s"
proof (induction s arbitrary: bol pos)
  case Nil
  show ?case by simp
next
  case (Cons c cs)
  show ?case using Cons.IH [of "c = CHR 0x0A" "Suc pos"] by (auto split: option.splits)
qed


lemma finditer_ends_last:
  assumes ml: "\<And>x n. m x = Some n \<Longrightarrow> 0 < n \<and> n \<le> length x"
  shows "finditer_ends m bol pos s \<noteq> [] \<Longrightarrow>
           \<exists>a mt b. s = a @ mt @ b \<and> (if a = [] then bol else last a = CHR 0x0A)
             \<and> m (mt @ b) = Some (length mt)
             \<and> last (finditer_ends m bol pos s) = pos + length a + length mt
             \<and> \<not> re_search_multiline m (last mt = CHR 0x0A) b"
proof (induction s arbitrary: bol pos rule: length_induct)
  case (1 s)
  have m0: "m [] = None"
  proof (cases "m []")
    case (Some n)
    then show ?thesis using ml [of "[]" n] by auto
  qed simp
  from "1.prems" obtain c cs where s: "s = c # cs" by (cases s) auto
  show ?case
  proof (cases "if bol then m (c # cs) else None")
    case None
    then have e: "finditer_ends m bol pos s = finditer_ends m (c = CHR 0x0A) (Suc pos) cs"
      using s by simp
    then have "finditer_ends m (c = CHR 0x0A) (Suc pos) cs \<noteq> []" using "1.prems" by simp
    then obtain a' mt b where ih: "cs = a' @ mt @ b"
      "if a' = [] then c = CHR 0x0A else last a' = CHR 0x0A"
      "m (mt @ b) = Some (length mt)"
      "last (finditer_ends m (c = CHR 0x0A) (Suc pos) cs) = Suc pos + length a' + length mt"
      "\<not> re_search_multiline m (last mt = CHR 0x0A) b"
      using "1.IH" [rule_format, of cs "c = CHR 0x0A" "Suc pos"] s by auto
    have "s = (c # a') @ mt @ b" using s ih(1) by simp
    moreover have "last (c # a') = CHR 0x0A" using ih(2) by (auto split: if_splits)
    moreover have "last (finditer_ends m bol pos s) = pos + length (c # a') + length mt"
      using e ih(4) by simp
    ultimately show ?thesis using ih(3,5) by (metis list.distinct(1))
  next
    case (Some n)
    then have b: bol and mn: "m (c # cs) = Some n" by (auto split: if_splits)
    have n: "0 < n" "n \<le> length (c # cs)" using ml [OF mn] by simp_all
    define mt0 where "mt0 = take n (c # cs)"
    define b0 where "b0 = drop n (c # cs)"
    have sp: "s = mt0 @ b0" by (simp add: s mt0_def b0_def)
    have l0: "length mt0 = n" using n(2) by (simp add: mt0_def)
    have d: "drop (n - 1) cs = b0" using n(1) by (cases n) (simp_all add: b0_def)
    have "mt0 \<noteq> []" using l0 n(1) by auto
    then have "last mt0 = mt0 ! (length mt0 - 1)" by (rule last_conv_nth)
    then have la: "last mt0 = (c # cs) ! (n - 1)"
      using n(1) unfolding l0 by (simp add: mt0_def)
    define E where "E = finditer_ends m (last mt0 = CHR 0x0A) (pos + n) b0"
    have e: "finditer_ends m bol pos s = (pos + n) # E"
      using s Some d la by (simp add: E_def)
    have ne: "mt0 \<noteq> []" using l0 n(1) by auto
    show ?thesis
    proof (cases "E = []")
      case True
      then have "\<not> re_search_multiline m (last mt0 = CHR 0x0A) b0"
        using finditer_ends_Nil_iff [where m = m, of "last mt0 = CHR 0x0A" "pos + n" b0] m0
        by (simp add: E_def)
      moreover have "s = [] @ mt0 @ b0" using sp by simp
      moreover have "m (mt0 @ b0) = Some (length mt0)" using mn sp s l0 by simp
      moreover have "last (finditer_ends m bol pos s) = pos + length ([]::string) + length mt0"
        using e True l0 by simp
      ultimately show ?thesis using b by (metis (full_types))
    next
      case False
      have "length b0 < length s" using s n by (simp add: b0_def)
      then obtain a' mt b' where ih: "b0 = a' @ mt @ b'"
        "if a' = [] then last mt0 = CHR 0x0A else last a' = CHR 0x0A"
        "m (mt @ b') = Some (length mt)"
        "last E = pos + n + length a' + length mt"
        "\<not> re_search_multiline m (last mt = CHR 0x0A) b'"
        using "1.IH" [rule_format, of b0 "last mt0 = CHR 0x0A" "pos + n"] False
        unfolding E_def by auto
      have "s = (mt0 @ a') @ mt @ b'" using sp ih(1) by simp
      moreover have "mt0 @ a' \<noteq> []" using ne by simp
      moreover have "last (mt0 @ a') = CHR 0x0A" using ih(2) ne by (auto split: if_splits)
      moreover have "last (finditer_ends m bol pos s) = pos + length (mt0 @ a') + length mt"
        using e False ih(4) l0 by simp
      ultimately show ?thesis using ih(3,5) by metis
    qed
  qed
qed

lemma space_not_word: "is_space c \<Longrightarrow> \<not> is_word c"
  by (auto simp: is_space_def is_word_def Let_def)

lemma class_facts [simp]:
  "\<not> is_space CHR ''m''" "\<not> is_space CHR '';''" "\<not> is_word CHR '';''"
  by (simp_all add: is_space_def is_word_def)

lemma takeWhile_all: "\<forall>c\<in>set xs. P c \<Longrightarrow> ys = [] \<or> \<not> P (hd ys) \<Longrightarrow> takeWhile P (xs @ ys) = xs"
  by (induction xs) (auto simp: takeWhile_eq_Nil_iff neq_Nil_conv)

lemma dropWhile_all: "\<forall>c\<in>set xs. P c \<Longrightarrow> ys = [] \<or> \<not> P (hd ys) \<Longrightarrow> dropWhile P (xs @ ys) = ys"
  by (induction xs) (auto simp: dropWhile_eq_self_iff neq_Nil_conv)

lemma pub_mod_pattern_SomeD:
  assumes "pub_mod_pattern s = Some n"
  shows "\<exists>ws0 ws1 ws2 name ws3 rest.
           s = ws0 @ ''pub'' @ ws1 @ ''mod'' @ ws2 @ name @ ws3 @ '';'' @ rest
           \<and> (\<forall>c\<in>set ws0. is_space c) \<and> ws1 \<noteq> [] \<and> (\<forall>c\<in>set ws1. is_space c)
           \<and> ws2 \<noteq> [] \<and> (\<forall>c\<in>set ws2. is_space c) \<and> name \<noteq> [] \<and> (\<forall>c\<in>set name. is_word c)
           \<and> (\<forall>c\<in>set ws3. is_space c)
           \<and> n = length (ws0 @ ''pub'' @ ws1 @ ''mod'' @ ws2 @ name @ ws3 @ '';'')"
proof -
  define ws0 where "ws0 = takeWhile is_space s"
  from assms obtain r1 where r1: "strip_prefix ''pub'' (dropWhile is_space s) = Some r1"
    by (auto simp: pub_mod_pattern_def split: option.splits)
  define ws1 where "ws1 = takeWhile is_space r1"
  from assms r1 have n1: "ws1 \<noteq> []"
    by (auto simp: pub_mod_pattern_def ws1_def split: option.splits if_splits)
  from assms r1 n1 obtain r2 where r2: "strip_prefix ''mod'' (dropWhile is_space r1) = Some r2"
    by (auto simp: pub_mod_pattern_def ws1_def split: option.splits if_splits)
  define ws2 where "ws2 = takeWhile is_space r2"
  define r3 where "r3 = dropWhile is_space r2"
  define name where "name = takeWhile is_word r3"
  define r4 where "r4 = dropWhile is_word r3"
  define ws3 where "ws3 = takeWhile is_space r4"
  from assms r1 n1 r2 have n2: "ws2 \<noteq> []" and nn: "name \<noteq> []"
    by (auto simp: pub_mod_pattern_def ws1_def ws2_def name_def r3_def
        split: option.splits if_splits)
  from assms r1 n1 r2 n2 nn obtain rest where
    rest: "strip_prefix '';'' (dropWhile is_space r4) = Some rest"
    and n: "n = length s - length rest"
    by (auto simp: pub_mod_pattern_def ws1_def ws2_def name_def r3_def r4_def
        split: option.splits if_splits)
  have e0: "s = ws0 @ dropWhile is_space s" by (simp add: ws0_def)
  have e1: "dropWhile is_space s = ''pub'' @ r1" using r1 by (simp only: strip_prefix_Some)
  have e2: "r1 = ws1 @ dropWhile is_space r1" by (simp add: ws1_def)
  have e3: "dropWhile is_space r1 = ''mod'' @ r2" using r2 by (simp only: strip_prefix_Some)
  have e4: "r2 = ws2 @ r3" by (simp add: ws2_def r3_def)
  have e5: "r3 = name @ r4" by (simp add: name_def r4_def)
  have e6: "r4 = ws3 @ dropWhile is_space r4" by (simp add: ws3_def)
  have e7: "dropWhile is_space r4 = '';'' @ rest" using rest by (simp only: strip_prefix_Some)
  have s: "s = ws0 @ ''pub'' @ ws1 @ ''mod'' @ ws2 @ name @ ws3 @ '';'' @ rest"
    using e0 e1 e2 e3 e4 e5 e6 e7 by (metis append.assoc)
  have "length s = length (ws0 @ ''pub'' @ ws1 @ ''mod'' @ ws2 @ name @ ws3 @ '';'')
                   + length rest"
    by (subst s) simp
  then have n': "n = length (ws0 @ ''pub'' @ ws1 @ ''mod'' @ ws2 @ name @ ws3 @ '';'')"
    using n by simp
  have sp: "\<forall>c\<in>set ws0. is_space c" "\<forall>c\<in>set ws1. is_space c" "\<forall>c\<in>set ws2. is_space c"
    "\<forall>c\<in>set ws3. is_space c" "\<forall>c\<in>set name. is_word c"
    by (auto simp: ws0_def ws1_def ws2_def ws3_def name_def dest: set_takeWhileD)
  show ?thesis using s n' sp n1 n2 nn by blast
qed

lemma pub_mod_pattern_length:
  "pub_mod_pattern x = Some n \<Longrightarrow> 0 < n \<and> n \<le> length x"
  by (drule pub_mod_pattern_SomeD) auto

lemma pub_mod_pattern_last:
  assumes "pub_mod_pattern (mt @ b) = Some (length mt)"
  shows "mt \<noteq> [] \<and> last mt = CHR '';''"
proof -
  from pub_mod_pattern_SomeD [OF assms] obtain pre rest where
    e: "mt @ b = (pre @ '';'') @ rest" and l: "length mt = length (pre @ '';'')"
    by (metis append.assoc)
  then have "mt = pre @ '';''" by (metis append_eq_append_conv)
  then show ?thesis by simp
qed


lemma pub_mod_pattern_iff:
  "pub_mod_pattern s \<noteq> None \<longleftrightarrow>
     (\<exists>ws0 ws1 ws2 name ws3 rest.
        s = ws0 @ ''pub'' @ ws1 @ ''mod'' @ ws2 @ name @ ws3 @ '';'' @ rest
        \<and> (\<forall>c\<in>set ws0. is_space c) \<and> ws1 \<noteq> [] \<and> (\<forall>c\<in>set ws1. is_space c)
        \<and> ws2 \<noteq> [] \<and> (\<forall>c\<in>set ws2. is_space c) \<and> name \<noteq> [] \<and> (\<forall>c\<in>set name. is_word c)
        \<and> (\<forall>c\<in>set ws3. is_space c))"
  (is "?L \<longleftrightarrow> ?R")
proof
  assume ?L
  then obtain n where "pub_mod_pattern s = Some n" by auto
  from pub_mod_pattern_SomeD [OF this] show ?R by blast
next
  assume ?R
  then obtain ws0 ws1 ws2 name ws3 rest where
    s: "s = ws0 @ ''pub'' @ ws1 @ ''mod'' @ ws2 @ name @ ws3 @ '';'' @ rest"
    and c: "\<forall>c\<in>set ws0. is_space c" "ws1 \<noteq> []" "\<forall>c\<in>set ws1. is_space c"
      "ws2 \<noteq> []" "\<forall>c\<in>set ws2. is_space c" "name \<noteq> []" "\<forall>c\<in>set name. is_word c"
      "\<forall>c\<in>set ws3. is_space c"
    by blast
  have nw: "\<not> is_word (hd (ws3 @ '';'' @ rest))"
    using c(8) space_not_word by (cases ws3) auto
  have nsn: "\<not> is_space (hd (name @ ws3 @ '';'' @ rest))"
    using c(6,7) space_not_word by (cases name) auto
  have d0: "dropWhile is_space s = ''pub'' @ ws1 @ ''mod'' @ ws2 @ name @ ws3 @ '';'' @ rest"
    unfolding s using c(1) by (intro dropWhile_all) simp_all
  have t1: "takeWhile is_space (ws1 @ ''mod'' @ ws2 @ name @ ws3 @ '';'' @ rest) = ws1"
    using c(3) by (intro takeWhile_all) simp_all
  have d1: "dropWhile is_space (ws1 @ ''mod'' @ ws2 @ name @ ws3 @ '';'' @ rest)
              = ''mod'' @ ws2 @ name @ ws3 @ '';'' @ rest"
    using c(3) by (intro dropWhile_all) simp_all
  have t2: "takeWhile is_space (ws2 @ name @ ws3 @ '';'' @ rest) = ws2"
    using c(5) nsn by (intro takeWhile_all) simp_all
  have d2: "dropWhile is_space (ws2 @ name @ ws3 @ '';'' @ rest) = name @ ws3 @ '';'' @ rest"
    using c(5) nsn by (intro dropWhile_all) simp_all
  have t3: "takeWhile is_word (name @ ws3 @ '';'' @ rest) = name"
    using c(7) nw by (intro takeWhile_all) simp_all
  have d3: "dropWhile is_word (name @ ws3 @ '';'' @ rest) = ws3 @ '';'' @ rest"
    using c(7) nw by (intro dropWhile_all) simp_all
  have d4: "dropWhile is_space (ws3 @ '';'' @ rest) = '';'' @ rest"
    using c(8) by (intro dropWhile_all) simp_all
  have p1: "strip_prefix ''pub'' (''pub'' @ ws1 @ ''mod'' @ ws2 @ name @ ws3 @ '';'' @ rest)
              = Some (ws1 @ ''mod'' @ ws2 @ name @ ws3 @ '';'' @ rest)"
    by (rule strip_prefix_append)
  have p2: "strip_prefix ''mod'' (''mod'' @ ws2 @ name @ ws3 @ '';'' @ rest)
              = Some (ws2 @ name @ ws3 @ '';'' @ rest)"
    by (rule strip_prefix_append)
  have p3: "strip_prefix '';'' ('';'' @ rest) = Some rest"
    by (rule strip_prefix_append)
  show ?L
    unfolding pub_mod_pattern_def d0 p1 option.case t1 d1 p2 t2 d2 t3 d3 d4 p3
    using c(2,4,6) by simp
qed

lemma memory_decl_pattern_iff:
  "memory_decl_pattern s \<noteq> None \<longleftrightarrow>
     (\<exists>ws0 ws1 ws2 ws3 rest.
        s = ws0 @ ''pub'' @ ws1 @ ''mod'' @ ws2 @ ''memory'' @ ws3 @ '';'' @ rest
        \<and> (\<forall>c\<in>set ws0. is_space c) \<and> ws1 \<noteq> [] \<and> (\<forall>c\<in>set ws1. is_space c)
        \<and> ws2 \<noteq> [] \<and> (\<forall>c\<in>set ws2. is_space c) \<and> (\<forall>c\<in>set ws3. is_space c))"
  (is "?L \<longleftrightarrow> ?R")
proof
  assume l: ?L
  define ws0 where "ws0 = takeWhile is_space s"
  from l obtain r1 where r1: "strip_prefix ''pub'' (dropWhile is_space s) = Some r1"
    by (auto simp: memory_decl_pattern_def split: option.splits)
  define ws1 where "ws1 = takeWhile is_space r1"
  from l r1 have n1: "ws1 \<noteq> []"
    by (auto simp: memory_decl_pattern_def ws1_def split: option.splits if_splits)
  from l r1 n1 obtain r2 where r2: "strip_prefix ''mod'' (dropWhile is_space r1) = Some r2"
    by (auto simp: memory_decl_pattern_def ws1_def split: option.splits if_splits)
  define ws2 where "ws2 = takeWhile is_space r2"
  from l r1 n1 r2 have n2: "ws2 \<noteq> []"
    by (auto simp: memory_decl_pattern_def ws1_def ws2_def split: option.splits if_splits)
  from l r1 n1 r2 n2 obtain r3 where
    r3: "strip_prefix ''memory'' (dropWhile is_space r2) = Some r3"
    by (auto simp: memory_decl_pattern_def ws1_def ws2_def split: option.splits if_splits)
  define ws3 where "ws3 = takeWhile is_space r3"
  from l r1 n1 r2 n2 r3 obtain rest where
    rest: "strip_prefix '';'' (dropWhile is_space r3) = Some rest"
    by (auto simp: memory_decl_pattern_def ws1_def ws2_def split: option.splits if_splits)
  have e0: "s = ws0 @ dropWhile is_space s" by (simp add: ws0_def)
  have e1: "dropWhile is_space s = ''pub'' @ r1" using r1 by (simp only: strip_prefix_Some)
  have e2: "r1 = ws1 @ dropWhile is_space r1" by (simp add: ws1_def)
  have e3: "dropWhile is_space r1 = ''mod'' @ r2" using r2 by (simp only: strip_prefix_Some)
  have e4: "r2 = ws2 @ dropWhile is_space r2" by (simp add: ws2_def)
  have e5: "dropWhile is_space r2 = ''memory'' @ r3" using r3 by (simp only: strip_prefix_Some)
  have e6: "r3 = ws3 @ dropWhile is_space r3" by (simp add: ws3_def)
  have e7: "dropWhile is_space r3 = '';'' @ rest" using rest by (simp only: strip_prefix_Some)
  have s: "s = ws0 @ ''pub'' @ ws1 @ ''mod'' @ ws2 @ ''memory'' @ ws3 @ '';'' @ rest"
    using e0 e1 e2 e3 e4 e5 e6 e7 by (metis append.assoc)
  have sp: "\<forall>c\<in>set ws0. is_space c" "\<forall>c\<in>set ws1. is_space c" "\<forall>c\<in>set ws2. is_space c"
    "\<forall>c\<in>set ws3. is_space c"
    by (auto simp: ws0_def ws1_def ws2_def ws3_def dest: set_takeWhileD)
  show ?R using s sp n1 n2 by blast
next
  assume ?R
  then obtain ws0 ws1 ws2 ws3 rest where
    s: "s = ws0 @ ''pub'' @ ws1 @ ''mod'' @ ws2 @ ''memory'' @ ws3 @ '';'' @ rest"
    and c: "\<forall>c\<in>set ws0. is_space c" "ws1 \<noteq> []" "\<forall>c\<in>set ws1. is_space c"
      "ws2 \<noteq> []" "\<forall>c\<in>set ws2. is_space c" "\<forall>c\<in>set ws3. is_space c"
    by blast
  have d0: "dropWhile is_space s = ''pub'' @ ws1 @ ''mod'' @ ws2 @ ''memory'' @ ws3 @ '';'' @ rest"
    unfolding s using c(1) by (intro dropWhile_all) simp_all
  have t1: "takeWhile is_space (ws1 @ ''mod'' @ ws2 @ ''memory'' @ ws3 @ '';'' @ rest) = ws1"
    using c(3) by (intro takeWhile_all) simp_all
  have d1: "dropWhile is_space (ws1 @ ''mod'' @ ws2 @ ''memory'' @ ws3 @ '';'' @ rest)
              = ''mod'' @ ws2 @ ''memory'' @ ws3 @ '';'' @ rest"
    using c(3) by (intro dropWhile_all) simp_all
  have t2: "takeWhile is_space (ws2 @ ''memory'' @ ws3 @ '';'' @ rest) = ws2"
    using c(5) by (intro takeWhile_all) simp_all
  have d2: "dropWhile is_space (ws2 @ ''memory'' @ ws3 @ '';'' @ rest)
              = ''memory'' @ ws3 @ '';'' @ rest"
    using c(5) by (intro dropWhile_all) simp_all
  have d3: "dropWhile is_space (ws3 @ '';'' @ rest) = '';'' @ rest"
    using c(6) by (intro dropWhile_all) simp_all
  have p1: "strip_prefix ''pub'' (''pub'' @ ws1 @ ''mod'' @ ws2 @ ''memory'' @ ws3 @ '';'' @ rest)
              = Some (ws1 @ ''mod'' @ ws2 @ ''memory'' @ ws3 @ '';'' @ rest)"
    by (rule strip_prefix_append)
  have p2: "strip_prefix ''mod'' (''mod'' @ ws2 @ ''memory'' @ ws3 @ '';'' @ rest)
              = Some (ws2 @ ''memory'' @ ws3 @ '';'' @ rest)"
    by (rule strip_prefix_append)
  have p3: "strip_prefix ''memory'' (''memory'' @ ws3 @ '';'' @ rest) = Some (ws3 @ '';'' @ rest)"
    by (rule strip_prefix_append)
  have p4: "strip_prefix '';'' ('';'' @ rest) = Some rest"
    by (rule strip_prefix_append)
  show ?L
    unfolding memory_decl_pattern_def d0 p1 option.case t1 d1 p2 t2 d2 p3 d3 p4
    using c(2,4) by simp
qed


lemma has_memory_decl_iff:
  "has_memory_decl c \<longleftrightarrow>
     (\<exists>x y. c = x @ y \<and> (x = [] \<or> last x = CHR 0x0A) \<and> memory_decl_pattern y \<noteq> None)"
proof -
  have "memory_decl_pattern [] = None" by (simp add: memory_decl_pattern_def)
  then have "has_memory_decl c \<longleftrightarrow>
     (\<exists>x y. c = x @ y \<and> (if x = [] then True else last x = CHR 0x0A)
            \<and> memory_decl_pattern y \<noteq> None)"
    unfolding has_memory_decl_def by (rule re_search_multiline_iff)
  also have "\<dots> \<longleftrightarrow>
     (\<exists>x y. c = x @ y \<and> (x = [] \<or> last x = CHR 0x0A) \<and> memory_decl_pattern y \<noteq> None)"
    by (intro ex_cong1) auto
  finally show ?thesis .
qed

lemma pub_mod_pattern_Nil: "pub_mod_pattern [] = None"
  by (simp add: pub_mod_pattern_def)

lemma no_pub_mod_iff:
  "finditer_ends pub_mod_pattern True 0 c = [] \<longleftrightarrow>
     \<not> (\<exists>x y. c = x @ y \<and> (x = [] \<or> last x = CHR 0x0A) \<and> pub_mod_pattern y \<noteq> None)"
proof -
  have "re_search_multiline pub_mod_pattern True c \<longleftrightarrow>
     (\<exists>x y. c = x @ y \<and> (if x = [] then True else last x = CHR 0x0A)
            \<and> pub_mod_pattern y \<noteq> None)"
    using pub_mod_pattern_Nil by (rule re_search_multiline_iff)
  also have "\<dots> \<longleftrightarrow>
     (\<exists>x y. c = x @ y \<and> (x = [] \<or> last x = CHR 0x0A) \<and> pub_mod_pattern y \<noteq> None)"
    by (intro ex_cong1) auto
  finally show ?thesis
    using finditer_ends_Nil_iff [where m = pub_mod_pattern, of True 0 c] pub_mod_pattern_Nil
    by simp
qed

lemma insert_after_last_pub_mod:
  assumes "finditer_ends pub_mod_pattern True 0 c \<noteq> []"
  shows "\<exists>a mt b. c = a @ mt @ b \<and> (a = [] \<or> last a = CHR 0x0A)
           \<and> pub_mod_pattern (mt @ b) = Some (length mt) \<and> last mt = CHR '';''
           \<and> \<not> (\<exists>x y. b = x @ y \<and> x \<noteq> [] \<and> last x = CHR 0x0A \<and> pub_mod_pattern y \<noteq> None)
           \<and> insert_memory_decl c
               = a @ mt @ [CHR 0x0A] @ doc_line @ [CHR 0x0A] @ ''pub mod memory;'' @ b"
proof -
  obtain a mt b where c: "c = a @ mt @ b"
    and a: "if a = [] then True else last a = CHR 0x0A"
    and m: "pub_mod_pattern (mt @ b) = Some (length mt)"
    and l: "last (finditer_ends pub_mod_pattern True 0 c) = 0 + length a + length mt"
    and n: "\<not> re_search_multiline pub_mod_pattern (last mt = CHR 0x0A) b"
    using finditer_ends_last [where m = pub_mod_pattern, OF pub_mod_pattern_length assms]
    by blast
  have lm: "last mt = CHR '';''" using pub_mod_pattern_last [OF m] by simp
  then have "\<not> re_search_multiline pub_mod_pattern False b" using n by simp
  then have nr: "\<not> (\<exists>x y. b = x @ y \<and> (if x = [] then False else last x = CHR 0x0A)
                        \<and> pub_mod_pattern y \<noteq> None)"
    using re_search_multiline_iff [where m = pub_mod_pattern, of False b] pub_mod_pattern_Nil
    by simp
  have n': "\<not> (\<exists>x y. b = x @ y \<and> x \<noteq> [] \<and> last x = CHR 0x0A \<and> pub_mod_pattern y \<noteq> None)"
  proof
    assume "\<exists>x y. b = x @ y \<and> x \<noteq> [] \<and> last x = CHR 0x0A \<and> pub_mod_pattern y \<noteq> None"
    then obtain x y where "b = x @ y" "x \<noteq> []" "last x = CHR 0x0A" "pub_mod_pattern y \<noteq> None"
      by blast
    then have "b = x @ y \<and> (if x = [] then False else last x = CHR 0x0A)
               \<and> pub_mod_pattern y \<noteq> None" by simp
    then show False using nr by blast
  qed
  have "take (length a + length mt) c = a @ mt" and "drop (length a + length mt) c = b"
    using c by simp_all
  then have "insert_memory_decl c
               = a @ mt @ [CHR 0x0A] @ doc_line @ [CHR 0x0A] @ ''pub mod memory;'' @ b"
    using assms l by (simp add: insert_memory_decl_def Let_def)
  moreover have "a = [] \<or> last a = CHR 0x0A" using a by (auto split: if_splits)
  ultimately show ?thesis using c m lm n' by blast
qed

lemma insert_before_first_code_line:
  assumes "finditer_ends pub_mod_pattern True 0 c = []"
  shows "insert_memory_decl c
           = (if \<exists>l\<in>set (split_on CHR 0x0A c).
                   strip l \<noteq> [] \<and> \<not> prefix ''//'' (strip l) \<and> \<not> prefix ''#!'' (strip l)
              then join [CHR 0x0A]
                     (takeWhile (\<lambda>l. \<not> (strip l \<noteq> [] \<and> \<not> prefix ''//'' (strip l)
                                          \<and> \<not> prefix ''#!'' (strip l)))
                        (split_on CHR 0x0A c)
                      @ [doc_line, ''pub mod memory;'', []]
                      @ dropWhile (\<lambda>l. \<not> (strip l \<noteq> [] \<and> \<not> prefix ''//'' (strip l)
                                            \<and> \<not> prefix ''#!'' (strip l)))
                          (split_on CHR 0x0A c))
              else join [CHR 0x0A]
                     ([doc_line, ''pub mod memory;'', []] @ split_on CHR 0x0A c))"
proof -
  let ?ls = "split_on CHR 0x0A c"
  let ?P = "\<lambda>l. \<not> (strip l \<noteq> [] \<and> \<not> prefix ''//'' (strip l) \<and> \<not> prefix ''#!'' (strip l))"
  have t: "take (length (takeWhile ?P ?ls)) ?ls = takeWhile ?P ?ls"
    by (rule takeWhile_eq_take [symmetric])
  have d: "drop (length (takeWhile ?P ?ls)) ?ls = dropWhile ?P ?ls"
    by (rule dropWhile_eq_drop [symmetric])
  have f: "find_insert_line 0 ?ls =
     (if \<exists>l\<in>set ?ls. strip l \<noteq> [] \<and> \<not> prefix ''//'' (strip l) \<and> \<not> prefix ''#!'' (strip l)
      then 0 + length (takeWhile ?P ?ls) else 0)"
    by (rule find_insert_line_takeWhile)
  show ?thesis
  proof (cases "\<exists>l\<in>set ?ls. strip l \<noteq> [] \<and> \<not> prefix ''//'' (strip l)
                                \<and> \<not> prefix ''#!'' (strip l)")
    case True
    have "find_insert_line 0 ?ls = length (takeWhile ?P ?ls)"
      using f by (simp only: True if_True add_0)
    then show ?thesis
      unfolding insert_memory_decl_lines [OF assms] using t d by (simp only: True if_True)
  next
    case False
    have "find_insert_line 0 ?ls = 0"
      using f by (simp only: False if_False)
    then show ?thesis
      unfolding insert_memory_decl_lines [OF assms] by (simp only: False if_False take_0 drop_0 append_Nil)
  qed
qed

lemma add_memory_module_to_lib_runs:
  assumes "read_text w lib = Inr c"
  shows "(has_memory_decl c \<longrightarrow>
            add_memory_module_to_lib w lib = Inr (print_message w Already_declared, False))
         \<and> (\<not> has_memory_decl c \<longrightarrow>
              (\<forall>w1. write_text w lib (insert_memory_decl c) = Inr w1 \<longrightarrow>
                 add_memory_module_to_lib w lib = Inr (print_message w1 Added_declaration, True)
                 \<and> read_text (print_message w1 Added_declaration) lib
                     = Inr (insert_memory_decl c)
                 \<and> add_memory_module_to_lib (print_message w1 Added_declaration) lib
                     = Inr (print_message (print_message w1 Added_declaration) Already_declared,
                            False)))
         \<and> has_memory_decl (insert_memory_decl c)
         \<and> (finditer_ends pub_mod_pattern True 0 c \<noteq> [] \<longrightarrow>
              insert_memory_decl c
                = take (last (finditer_ends pub_mod_pattern True 0 c)) c
                  @ [CHR 0x0A] @ doc_line @ [CHR 0x0A] @ ''pub mod memory;''
                  @ drop (last (finditer_ends pub_mod_pattern True 0 c)) c)
         \<and> (finditer_ends pub_mod_pattern True 0 c = [] \<longrightarrow>
              insert_memory_decl c
                = join [CHR 0x0A]
                    (take (find_insert_line 0 (split_on CHR 0x0A c)) (split_on CHR 0x0A c)
                     @ [doc_line, ''pub mod memory;'', []]
                     @ drop (find_insert_line 0 (split_on CHR 0x0A c)) (split_on CHR 0x0A c)))"
proof (intro conjI impI allI)
  have ex: "exists_path w lib" using assms by (rule read_text_exists)
  {
    assume "has_memory_decl c"
    then show "add_memory_module_to_lib w lib = Inr (print_message w Already_declared, False)"
      using assms ex by (simp add: add_memory_module_to_lib_def)
  }
  {
    fix w1
    assume n: "\<not> has_memory_decl c" and wr: "write_text w lib (insert_memory_decl c) = Inr w1"
    show 1: "add_memory_module_to_lib w lib = Inr (print_message w1 Added_declaration, True)"
      using assms ex n wr by (simp add: add_memory_module_to_lib_def)
    show 2: "read_text (print_message w1 Added_declaration) lib = Inr (insert_memory_decl c)"
      using write_text_result(1) [OF wr] by simp
    have "exists_path (print_message w1 Added_declaration) lib"
      using 2 by (rule read_text_exists)
    then show "add_memory_module_to_lib (print_message w1 Added_declaration) lib
                 = Inr (print_message (print_message w1 Added_declaration) Already_declared, False)"
      using 2 has_memory_decl_insert [of c]
      by (simp add: add_memory_module_to_lib_def del: read_text_print_message)
  }
  show "has_memory_decl (insert_memory_decl c)" by (rule has_memory_decl_insert)
  {
    assume "finditer_ends pub_mod_pattern True 0 c \<noteq> []"
    then show "insert_memory_decl c
                = take (last (finditer_ends pub_mod_pattern True 0 c)) c
                  @ [CHR 0x0A] @ doc_line @ [CHR 0x0A] @ ''pub mod memory;''
                  @ drop (last (finditer_ends pub_mod_pattern True 0 c)) c"
      by (simp add: insert_memory_decl_def Let_def)
  }
  {
    assume "finditer_ends pub_mod_pattern True 0 c = []"
    then show "insert_memory_decl c
                = join [CHR 0x0A]
                    (take (find_insert_line 0 (split_on CHR 0x0A c)) (split_on CHR 0x0A c)
                     @ [doc_line, ''pub mod memory;'', []]
                     @ drop (find_insert_line 0 (split_on CHR 0x0A c)) (split_on CHR 0x0A c))"
      by (rule insert_memory_decl_lines)
  }
qed

text \<open>
  Claim C9.  For an anchor file that can be read: when its text has a line matching the
  declaration pattern (at the start of the text or behind a newline: optional whitespace,
  \<open>pub\<close>, whitespace, \<open>mod\<close>, whitespace, \<open>memory\<close>, optional whitespace, a semicolon),
  \<open>add_memory_module_to_lib\<close> returns \<open>False\<close> and writes nothing.  Otherwise it writes the
  text with the declaration inserted and returns \<open>True\<close>.  The declaration goes directly
  behind the last match of \<open>pub mod X;\<close> at the start of a line (no such match starts at a
  later line); when there is no such match it goes in front of the first line that is
  neither blank nor a \<open>//\<close> comment nor a \<open>#!\<close> line, behind the leading block of such lines,
  and at line 0 when every line is of that kind.  The new text matches the declaration
  pattern, so a second call returns \<open>False\<close> and leaves the file with the one declaration.
\<close>

theorem declaration_inserted_once:
  assumes "read_text w lib = Inr c"
  shows "(has_memory_decl c \<longrightarrow>
            add_memory_module_to_lib w lib = Inr (print_message w Already_declared, False))
         \<and> (\<not> has_memory_decl c \<longrightarrow>
              (\<forall>w1. write_text w lib (insert_memory_decl c) = Inr w1 \<longrightarrow>
                 add_memory_module_to_lib w lib = Inr (print_message w1 Added_declaration, True)
                 \<and> read_text (print_message w1 Added_declaration) lib
                     = Inr (insert_memory_decl c)
                 \<and> add_memory_module_to_lib (print_message w1 Added_declaration) lib
                     = Inr (print_message (print_message w1 Added_declaration) Already_declared,
                            False)))
         \<and> has_memory_decl (insert_memory_decl c)
         \<and> (finditer_ends pub_mod_pattern True 0 c \<noteq> [] \<longrightarrow>
              insert_memory_decl c
                = take (last (finditer_ends pub_mod_pattern True 0 c)) c
                  @ [CHR 0x0A] @ doc_line @ [CHR 0x0A] @ ''pub mod memory;''
                  @ drop (last (finditer_ends pub_mod_pattern True 0 c)) c)
         \<and> (finditer_ends pub_mod_pattern True 0 c = [] \<longrightarrow>
              insert_memory_decl c
                = join [CHR 0x0A]
                    (take (find_insert_line 0 (split_on CHR 0x0A c)) (split_on CHR 0x0A c)
                     @ [doc_line, ''pub mod memory;'', []]
                     @ drop (find_insert_line 0 (split_on CHR 0x0A c)) (split_on CHR 0x0A c)))
         \<and> (\<forall>s. memory_decl_pattern s \<noteq> None \<longleftrightarrow>
               (\<exists>ws0 ws1 ws2 ws3 rest.
                  s = ws0 @ ''pub'' @ ws1 @ ''mod'' @ ws2 @ ''memory'' @ ws3 @ '';'' @ rest
                  \<and> (\<forall>c\<in>set ws0. is_space c) \<and> ws1 \<noteq> [] \<and> (\<forall>c\<in>set ws1. is_space c)
                  \<and> ws2 \<noteq> [] \<and> (\<forall>c\<in>set ws2. is_space c) \<and> (\<forall>c\<in>set ws3. is_space c)))
         \<and> (\<forall>s. pub_mod_pattern s \<noteq> None \<longleftrightarrow>
               (\<exists>ws0 ws1 ws2 name ws3 rest.
                  s = ws0 @ ''pub'' @ ws1 @ ''mod'' @ ws2 @ name @ ws3 @ '';'' @ rest
                  \<and> (\<forall>c\<in>set ws0. is_space c) \<and> ws1 \<noteq> [] \<and> (\<forall>c\<in>set ws1. is_space c)
                  \<and> ws2 \<noteq> [] \<and> (\<forall>c\<in>set ws2. is_space c)
                  \<and> name \<noteq> [] \<and> (\<forall>c\<in>set name. is_word c) \<and> (\<forall>c\<in>set ws3. is_space c)))
         \<and> (has_memory_decl c \<longleftrightarrow>
               (\<exists>x y. c = x @ y \<and> (x = [] \<or> last x = CHR 0x0A) \<and> memory_decl_pattern y \<noteq> None))
         \<and> (finditer_ends pub_mod_pattern True 0 c = [] \<longleftrightarrow>
               \<not> (\<exists>x y. c = x @ y \<and> (x = [] \<or> last x = CHR 0x0A) \<and> pub_mod_pattern y \<noteq> None))
         \<and> (finditer_ends pub_mod_pattern True 0 c \<noteq> [] \<longrightarrow>
               (\<exists>a mt b. c = a @ mt @ b \<and> (a = [] \<or> last a = CHR 0x0A)
                  \<and> pub_mod_pattern (mt @ b) = Some (length mt) \<and> last mt = CHR '';''
                  \<and> \<not> (\<exists>x y. b = x @ y \<and> x \<noteq> [] \<and> last x = CHR 0x0A \<and> pub_mod_pattern y \<noteq> None)
                  \<and> insert_memory_decl c
                      = a @ mt @ [CHR 0x0A] @ doc_line @ [CHR 0x0A] @ ''pub mod memory;'' @ b))
         \<and> (finditer_ends pub_mod_pattern True 0 c = [] \<longrightarrow>
               insert_memory_decl c
                 = (if \<exists>l\<in>set (split_on CHR 0x0A c).
                         strip l \<noteq> [] \<and> \<not> prefix ''//'' (strip l) \<and> \<not> prefix ''#!'' (strip l)
                    then join [CHR 0x0A]
                           (takeWhile (\<lambda>l. \<not> (strip l \<noteq> [] \<and> \<not> prefix ''//'' (strip l)
                                                \<and> \<not> prefix ''#!'' (strip l)))
                              (split_on CHR 0x0A c)
                            @ [doc_line, ''pub mod memory;'', []]
                            @ dropWhile (\<lambda>l. \<not> (strip l \<noteq> [] \<and> \<not> prefix ''//'' (strip l)
                                                  \<and> \<not> prefix ''#!'' (strip l)))
                                (split_on CHR 0x0A c))
                    else join [CHR 0x0A]
                           ([doc_line, ''pub mod memory;'', []] @ split_on CHR 0x0A c)))
         \<and> doc_line = ''/// Memory system with cognitive features and vector storage''"
proof -
  note runs = add_memory_module_to_lib_runs [OF assms]
  have new: "(\<forall>s. memory_decl_pattern s \<noteq> None \<longleftrightarrow>
               (\<exists>ws0 ws1 ws2 ws3 rest.
                  s = ws0 @ ''pub'' @ ws1 @ ''mod'' @ ws2 @ ''memory'' @ ws3 @ '';'' @ rest
                  \<and> (\<forall>c\<in>set ws0. is_space c) \<and> ws1 \<noteq> [] \<and> (\<forall>c\<in>set ws1. is_space c)
                  \<and> ws2 \<noteq> [] \<and> (\<forall>c\<in>set ws2. is_space c) \<and> (\<forall>c\<in>set ws3. is_space c)))
         \<and> (\<forall>s. pub_mod_pattern s \<noteq> None \<longleftrightarrow>
               (\<exists>ws0 ws1 ws2 name ws3 rest.
                  s = ws0 @ ''pub'' @ ws1 @ ''mod'' @ ws2 @ name @ ws3 @ '';'' @ rest
                  \<and> (\<forall>c\<in>set ws0. is_space c) \<and> ws1 \<noteq> [] \<and> (\<forall>c\<in>set ws1. is_space c)
                  \<and> ws2 \<noteq> [] \<and> (\<forall>c\<in>set ws2. is_space c)
                  \<and> name \<noteq> [] \<and> (\<forall>c\<in>set name. is_word c) \<and> (\<forall>c\<in>set ws3. is_space c)))
         \<and> (has_memory_decl c \<longleftrightarrow>
               (\<exists>x y. c = x @ y \<and> (x = [] \<or> last x = CHR 0x0A) \<and> memory_decl_pattern y \<noteq> None))
         \<and> (finditer_ends pub_mod_pattern True 0 c = [] \<longleftrightarrow>
               \<not> (\<exists>x y. c = x @ y \<and> (x = [] \<or> last x = CHR 0x0A) \<and> pub_mod_pattern y \<noteq> None))
         \<and> (finditer_ends pub_mod_pattern True 0 c \<noteq> [] \<longrightarrow>
               (\<exists>a mt b. c = a @ mt @ b \<and> (a = [] \<or> last a = CHR 0x0A)
                  \<and> pub_mod_pattern (mt @ b) = Some (length mt) \<and> last mt = CHR '';''
                  \<and> \<not> (\<exists>x y. b = x @ y \<and> x \<noteq> [] \<and> last x = CHR 0x0A \<and> pub_mod_pattern y \<noteq> None)
                  \<and> insert_memory_decl c
                      = a @ mt @ [CHR 0x0A] @ doc_line @ [CHR 0x0A] @ ''pub mod memory;'' @ b))
         \<and> (finditer_ends pub_mod_pattern True 0 c = [] \<longrightarrow>
               insert_memory_decl c
                 = (if \<exists>l\<in>set (split_on CHR 0x0A c).
                         strip l \<noteq> [] \<and> \<not> prefix ''//'' (strip l) \<and> \<not> prefix ''#!'' (strip l)
                    then join [CHR 0x0A]
                           (takeWhile (\<lambda>l. \<not> (strip l \<noteq> [] \<and> \<not> prefix ''//'' (strip l)
                                                \<and> \<not> prefix ''#!'' (strip l)))
                              (split_on CHR 0x0A c)
                            @ [doc_line, ''pub mod memory;'', []]
                            @ dropWhile (\<lambda>l. \<not> (strip l \<noteq> [] \<and> \<not> prefix ''//'' (strip l)
                                                  \<and> \<not> prefix ''#!'' (strip l)))
                                (split_on CHR 0x0A c))
                    else join [CHR 0x0A]
                           ([doc_line, ''pub mod memory;'', []] @ split_on CHR 0x0A c)))
         \<and> doc_line = ''/// Memory system with cognitive features and vector storage''"
  proof (intro conjI allI impI)
    fix s
    show "memory_decl_pattern s \<noteq> None \<longleftrightarrow>
               (\<exists>ws0 ws1 ws2 ws3 rest.
                  s = ws0 @ ''pub'' @ ws1 @ ''mod'' @ ws2 @ ''memory'' @ ws3 @ '';'' @ rest
                  \<and> (\<forall>c\<in>set ws0. is_space c) \<and> ws1 \<noteq> [] \<and> (\<forall>c\<in>set ws1. is_space c)
                  \<and> ws2 \<noteq> [] \<and> (\<forall>c\<in>set ws2. is_space c) \<and> (\<forall>c\<in>set ws3. is_space c))"
      by (rule memory_decl_pattern_iff)
    show "pub_mod_pattern s \<noteq> None \<longleftrightarrow>
               (\<exists>ws0 ws1 ws2 name ws3 rest.
                  s = ws0 @ ''pub'' @ ws1 @ ''mod'' @ ws2 @ name @ ws3 @ '';'' @ rest
                  \<and> (\<forall>c\<in>set ws0. is_space c) \<and> ws1 \<noteq> [] \<and> (\<forall>c\<in>set ws1. is_space c)
                  \<and> ws2 \<noteq> [] \<and> (\<forall>c\<in>set ws2. is_space c)
                  \<and> name \<noteq> [] \<and> (\<forall>c\<in>set name. is_word c) \<and> (\<forall>c\<in>set ws3. is_space c))"
      by (rule pub_mod_pattern_iff)
  next
    show "has_memory_decl c \<longleftrightarrow>
               (\<exists>x y. c = x @ y \<and> (x = [] \<or> last x = CHR 0x0A) \<and> memory_decl_pattern y \<noteq> None)"
      by (rule has_memory_decl_iff)
    show "finditer_ends pub_mod_pattern True 0 c = [] \<longleftrightarrow>
               \<not> (\<exists>x y. c = x @ y \<and> (x = [] \<or> last x = CHR 0x0A) \<and> pub_mod_pattern y \<noteq> None)"
      by (rule no_pub_mod_iff)
    show "doc_line = ''/// Memory system with cognitive features and vector storage''"
      by (simp add: doc_line_def)
  qed (rule insert_after_last_pub_mod, assumption, rule insert_before_first_code_line, assumption)
  from runs new show ?thesis by (elim conjE, intro conjI) assumption+
qed

theorem declaration_inserted_once_witness:
  "read_text \<lparr>nodes = [[''src'', ''lib.rs''] \<mapsto> File (Inr ''pub mod a;\<newline>fn f() {}'') True],
              writes = [], printed = []\<rparr> [''src'', ''lib.rs''] = Inr ''pub mod a;\<newline>fn f() {}''
   \<and> \<not> has_memory_decl ''pub mod a;\<newline>fn f() {}''
   \<and> insert_memory_decl ''pub mod a;\<newline>fn f() {}''
       = ''pub mod a;\<newline>/// Memory system with cognitive features and vector storage\<newline>pub mod memory;\<newline>fn f() {}''
   \<and> add_memory_module_to_lib
        \<lparr>nodes = [[''src'', ''lib.rs''] \<mapsto> File (Inr ''pub mod a;\<newline>fn f() {}'') True],
          writes = [], printed = []\<rparr> [''src'', ''lib.rs'']
       = Inr (\<lparr>nodes = [[''src'', ''lib.rs''] \<mapsto>
                 File (Inr ''pub mod a;\<newline>/// Memory system with cognitive features and vector storage\<newline>pub mod memory;\<newline>fn f() {}'') True],
                writes = [[''src'', ''lib.rs'']], printed = [Added_declaration]\<rparr>, True)
   \<and> add_memory_module_to_lib
        \<lparr>nodes = [[''src'', ''lib.rs''] \<mapsto>
                 File (Inr ''pub mod a;\<newline>/// Memory system with cognitive features and vector storage\<newline>pub mod memory;\<newline>fn f() {}'') True],
          writes = [[''src'', ''lib.rs'']], printed = [Added_declaration]\<rparr> [''src'', ''lib.rs'']
       = Inr (\<lparr>nodes = [[''src'', ''lib.rs''] \<mapsto>
                 File (Inr ''pub mod a;\<newline>/// Memory system with cognitive features and vector storage\<newline>pub mod memory;\<newline>fn f() {}'') True],
                writes = [[''src'', ''lib.rs'']],
                printed = [Added_declaration, Already_declared]\<rparr>, False)
   \<and> finditer_ends pub_mod_pattern True 0 ''// c\<newline>#![x]\<newline>\<newline>fn f() {}'' = []
   \<and> insert_memory_decl ''// c\<newline>#![x]\<newline>\<newline>fn f() {}''
       = ''// c\<newline>#![x]\<newline>\<newline>/// Memory system with cognitive features and vector storage\<newline>pub mod memory;\<newline>\<newline>fn f() {}''"
proof -
  let ?c2 = "''// c\<newline>#![x]\<newline>\<newline>fn f() {}''"
  let ?w2 = "\<lparr>nodes = [[''src'', ''lib.rs''] \<mapsto> File (Inr ?c2) True], writes = [], printed = []\<rparr>"
  have h2: "read_text ?w2 [''src'', ''lib.rs''] = Inr ?c2" by (simp add: read_text_def)
  have fe: "finditer_ends pub_mod_pattern True 0 ?c2 = []" by code_simp
  have rhs: "(if \<exists>l\<in>set (split_on CHR 0x0A ?c2).
                   strip l \<noteq> [] \<and> \<not> prefix ''//'' (strip l) \<and> \<not> prefix ''#!'' (strip l)
              then join [CHR 0x0A]
                     (takeWhile (\<lambda>l. \<not> (strip l \<noteq> [] \<and> \<not> prefix ''//'' (strip l)
                                          \<and> \<not> prefix ''#!'' (strip l)))
                        (split_on CHR 0x0A ?c2)
                      @ [doc_line, ''pub mod memory;'', []]
                      @ dropWhile (\<lambda>l. \<not> (strip l \<noteq> [] \<and> \<not> prefix ''//'' (strip l)
                                            \<and> \<not> prefix ''#!'' (strip l)))
                          (split_on CHR 0x0A ?c2))
              else join [CHR 0x0A]
                     ([doc_line, ''pub mod memory;'', []] @ split_on CHR 0x0A ?c2))
       = ''// c\<newline>#![x]\<newline>\<newline>/// Memory system with cognitive features and vector storage\<newline>pub mod memory;\<newline>\<newline>fn f() {}''"
    by code_simp
  have "insert_memory_decl ?c2
         = (if \<exists>l\<in>set (split_on CHR 0x0A ?c2).
                   strip l \<noteq> [] \<and> \<not> prefix ''//'' (strip l) \<and> \<not> prefix ''#!'' (strip l)
              then join [CHR 0x0A]
                     (takeWhile (\<lambda>l. \<not> (strip l \<noteq> [] \<and> \<not> prefix ''//'' (strip l)
                                          \<and> \<not> prefix ''#!'' (strip l)))
                        (split_on CHR 0x0A ?c2)
                      @ [doc_line, ''pub mod memory;'', []]
                      @ dropWhile (\<lambda>l. \<not> (strip l \<noteq> [] \<and> \<not> prefix ''//'' (strip l)
                                            \<and> \<not> prefix ''#!'' (strip l)))
                          (split_on CHR 0x0A ?c2))
              else join [CHR 0x0A]
                     ([doc_line, ''pub mod memory;'', []] @ split_on CHR 0x0A ?c2))"
    by (rule declaration_inserted_once [OF h2, THEN conjunct2, THEN conjunct2, THEN conjunct2, THEN conjunct2, THEN conjunct2, THEN conjunct2, THEN conjunct2, THEN conjunct2, THEN conjunct2, THEN conjunct2, THEN conjunct1, rule_format, OF fe])
  then have i2: "insert_memory_decl ?c2
       = ''// c\<newline>#![x]\<newline>\<newline>/// Memory system with cognitive features and vector storage\<newline>pub mod memory;\<newline>\<newline>fn f() {}''"
    by (simp only: rhs)
  let ?lib = "[''src'', ''lib.rs'']"
  let ?c = "''pub mod a;\<newline>fn f() {}''"
  let ?d = "''pub mod a;\<newline>/// Memory system with cognitive features and vector storage\<newline>pub mod memory;\<newline>fn f() {}''"
  let ?w = "\<lparr>nodes = [?lib \<mapsto> File (Inr ?c) True], writes = [], printed = []\<rparr>"
  let ?w1 = "\<lparr>nodes = [?lib \<mapsto> File (Inr ?d) True], writes = [?lib], printed = []\<rparr>"
  have h: "read_text ?w ?lib = Inr ?c" by (simp add: read_text_def)
  have n: "\<not> has_memory_decl ?c" by code_simp
  have i: "insert_memory_decl ?c = ?d" by code_simp
  have wr: "write_text ?w ?lib (insert_memory_decl ?c) = Inr ?w1"
    unfolding i by (simp add: write_text_def)
  have "add_memory_module_to_lib ?w ?lib = Inr (print_message ?w1 Added_declaration, True)
        \<and> add_memory_module_to_lib (print_message ?w1 Added_declaration) ?lib
            = Inr (print_message (print_message ?w1 Added_declaration) Already_declared, False)"
    using declaration_inserted_once [OF h, THEN conjunct2, THEN conjunct1, rule_format, OF n wr]
    by blast
  then show ?thesis using h n i fe i2 by (simp add: print_message_def)
qed

section \<open>Lemmas on substitution\<close>






lemma not_space_u [simp]: "\<not> is_space CHR ''u''"
  by (simp add: is_space_def)


lemma external_pattern_Nil [simp]: "external_pattern [] = None"
  by (simp add: external_pattern_def)






section \<open>The simple remap and the reserved names\<close>

text \<open>
  Claim C2.  The simple remap nests a single-path reference and skips a path that starts
  with \<open>memory::\<close>, as the claim says: \<open>use crate::cognitive::types;\<close> becomes
  \<open>use crate::memory::cognitive::types;\<close>, which a second run leaves as it is.  But it has
  no test for the reserved names: \<open>use crate::Error;\<close> and \<open>use crate::Result;\<close> are nested,
  while the bracketed rewriter keeps \<open>Error\<close> at the root.
\<close>

theorem simple_remap_nests_reserved_name:
  "transform_internal_memory_imports ''use crate::Error;'' = ''use crate::memory::Error;''
   \<and> transform_internal_memory_imports ''use crate::Result;'' = ''use crate::memory::Result;''
   \<and> transform_internal_memory_imports ''use crate::{Error};'' = ''use crate::{Error};''
   \<and> transform_internal_memory_imports ''use crate::cognitive::types;''
       = ''use crate::memory::cognitive::types;''
   \<and> transform_internal_memory_imports ''use crate::memory::cognitive::types;''
       = ''use crate::memory::cognitive::types;''"
  by code_simp

section \<open>The structure of the matches\<close>





lemma pattern_Nil [simp]: "pattern1 [] = None" "pattern2 [] = None"
  by (simp_all add: pattern1_def pattern2_def)



section \<open>No external match appears by the internal remaps\<close>














section \<open>The bracketed rewriter applied twice\<close>














section \<open>Applying the rule set twice\<close>





end
